theory Spec2Isabelle
  imports Complex_Main
begin

section \<open>Python numbers\<close>

text \<open>
  The amounts of \<^verbatim>\<open>accounts.py\<close> are Python numbers: an \<^verbatim>\<open>int\<close> (unbounded) or a
  \<^verbatim>\<open>float\<close> (IEEE 754 binary64). A finite float is modelled by the rational it denotes
  (the two zeros are identified: the program never divides and never prints a sign of
  zero into its state), with the three special values beside it.
\<close>

datatype f64 = Fin rat | PInf | NInf | NaN

text \<open>The number of binary digits of a positive integer (0 for the others).\<close>

function bits :: "int \<Rightarrow> int" where
  "bits i = (if i \<le> 0 then 0 else 1 + bits (i div 2))"
  by pat_completeness auto
termination
  by (relation "measure nat") auto

declare bits.simps [simp del]

definition pow2 :: "int \<Rightarrow> rat" where
  "pow2 e = (if 0 \<le> e then 2 ^ nat e else 1 / 2 ^ nat (- e))"

text \<open>\<open>fl2 a\<close> is the integer \<open>k\<close> with \<open>2^k \<le> a < 2^(k+1)\<close>, for \<open>a > 0\<close>.\<close>

definition fl2 :: "rat \<Rightarrow> int" where
  "fl2 a =
     (if 1 \<le> a then bits \<lfloor>a\<rfloor> - 1
      else (let b = bits \<lfloor>1 / a\<rfloor>
            in if a * pow2 (b - 1) = 1 then - (b - 1) else - b))"

text \<open>Rounding a non-negative rational to the nearest integer, ties to even.\<close>

definition round_half_even :: "rat \<Rightarrow> int" where
  "round_half_even m =
     (let f = \<lfloor>m\<rfloor>; d = m - of_int f
      in if d < 1 / 2 then f
         else if 1 / 2 < d then f + 1
         else if even f then f else f + 1)"

text \<open>
  The exponent of the last place of the binary64 numbers around \<open>a\<close>: 53 significant
  bits, and \<open>-1074\<close> at least (the subnormal range).
\<close>

definition expo :: "rat \<Rightarrow> int" where
  "expo a = max (fl2 a - 52) (- 1074)"

text \<open>
  Rounding a positive rational to binary64 (round to nearest, ties to even);
  \<open>None\<close> is overflow.
\<close>

definition round_mag :: "rat \<Rightarrow> rat option" where
  "round_mag a =
     (let e = expo a;
          r = of_int (round_half_even (a / pow2 e)) * pow2 e
      in if 2 ^ 1024 \<le> r then None else Some r)"

definition round64 :: "rat \<Rightarrow> f64" where
  "round64 x =
     (if x = 0 then Fin 0
      else if 0 < x then (case round_mag x of None \<Rightarrow> PInf | Some r \<Rightarrow> Fin r)
      else (case round_mag (- x) of None \<Rightarrow> NInf | Some r \<Rightarrow> Fin (- r)))"

text \<open>A value of \<open>f64\<close> is a float when its finite part is a binary64 number.\<close>

definition valid_f64 :: "f64 \<Rightarrow> bool" where
  "valid_f64 x = (case x of Fin r \<Rightarrow> round64 r = Fin r | _ \<Rightarrow> True)"

subsection \<open>Float arithmetic and comparison\<close>

fun fneg :: "f64 \<Rightarrow> f64" where
  "fneg (Fin a) = Fin (- a)"
| "fneg PInf = NInf"
| "fneg NInf = PInf"
| "fneg NaN = NaN"

fun fadd :: "f64 \<Rightarrow> f64 \<Rightarrow> f64" where
  "fadd (Fin a) (Fin b) = round64 (a + b)"
| "fadd NaN _ = NaN"
| "fadd _ NaN = NaN"
| "fadd PInf NInf = NaN"
| "fadd NInf PInf = NaN"
| "fadd PInf _ = PInf"
| "fadd NInf _ = NInf"
| "fadd _ PInf = PInf"
| "fadd _ NInf = NInf"

definition fsub :: "f64 \<Rightarrow> f64 \<Rightarrow> f64" where
  "fsub x y = fadd x (fneg y)"

fun fsgn :: "f64 \<Rightarrow> int" where
  "fsgn (Fin a) = sgn \<lfloor>sgn a\<rfloor>"
| "fsgn PInf = 1"
| "fsgn NInf = - 1"
| "fsgn NaN = 0"

fun fmul :: "f64 \<Rightarrow> f64 \<Rightarrow> f64" where
  "fmul (Fin a) (Fin b) = round64 (a * b)"
| "fmul NaN _ = NaN"
| "fmul _ NaN = NaN"
| "fmul x y =
     (if fsgn x * fsgn y = 0 then NaN else if 0 < fsgn x * fsgn y then PInf else NInf)"

fun flt :: "f64 \<Rightarrow> f64 \<Rightarrow> bool" where
  "flt NaN _ = False"
| "flt _ NaN = False"
| "flt (Fin a) (Fin b) = (a < b)"
| "flt _ NInf = False"
| "flt PInf _ = False"
| "flt NInf _ = True"
| "flt _ PInf = True"

fun feq :: "f64 \<Rightarrow> f64 \<Rightarrow> bool" where
  "feq NaN _ = False"
| "feq _ NaN = False"
| "feq x y = (x = y)"

subsection \<open>The numeric tower: int and float\<close>

datatype pynum = PyInt int | PyFloat f64

datatype error =
    ValueError string
  | TypeError
  | OverflowError
  | KeyError string
  | InsufficientFundsError pynum pynum
  | InsufficientSharesError string
  | UnknownSymbolError string

text \<open>
  \<^verbatim>\<open>float(i)\<close>, which Python applies to the int operand of a mixed operation: correctly
  rounded, and \<^verbatim>\<open>OverflowError: int too large to convert to float\<close> beyond the range.
\<close>

definition to_float :: "int \<Rightarrow> error + f64" where
  "to_float i = (case round64 (of_int i) of Fin r \<Rightarrow> Inr (Fin r) | _ \<Rightarrow> Inl OverflowError)"

fun py_add :: "pynum \<Rightarrow> pynum \<Rightarrow> error + pynum" where
  "py_add (PyInt a) (PyInt b) = Inr (PyInt (a + b))"
| "py_add (PyInt a) (PyFloat y) =
     (case to_float a of Inl e \<Rightarrow> Inl e | Inr x \<Rightarrow> Inr (PyFloat (fadd x y)))"
| "py_add (PyFloat x) (PyInt b) =
     (case to_float b of Inl e \<Rightarrow> Inl e | Inr y \<Rightarrow> Inr (PyFloat (fadd x y)))"
| "py_add (PyFloat x) (PyFloat y) = Inr (PyFloat (fadd x y))"

fun py_sub :: "pynum \<Rightarrow> pynum \<Rightarrow> error + pynum" where
  "py_sub (PyInt a) (PyInt b) = Inr (PyInt (a - b))"
| "py_sub (PyInt a) (PyFloat y) =
     (case to_float a of Inl e \<Rightarrow> Inl e | Inr x \<Rightarrow> Inr (PyFloat (fsub x y)))"
| "py_sub (PyFloat x) (PyInt b) =
     (case to_float b of Inl e \<Rightarrow> Inl e | Inr y \<Rightarrow> Inr (PyFloat (fsub x y)))"
| "py_sub (PyFloat x) (PyFloat y) = Inr (PyFloat (fsub x y))"

fun py_mul :: "pynum \<Rightarrow> pynum \<Rightarrow> error + pynum" where
  "py_mul (PyInt a) (PyInt b) = Inr (PyInt (a * b))"
| "py_mul (PyInt a) (PyFloat y) =
     (case to_float a of Inl e \<Rightarrow> Inl e | Inr x \<Rightarrow> Inr (PyFloat (fmul x y)))"
| "py_mul (PyFloat x) (PyInt b) =
     (case to_float b of Inl e \<Rightarrow> Inl e | Inr y \<Rightarrow> Inr (PyFloat (fmul x y)))"
| "py_mul (PyFloat x) (PyFloat y) = Inr (PyFloat (fmul x y))"

text \<open>
  Comparison of an int with a float is exact in Python (the int is not rounded first),
  so both operands are read as extended rationals.
\<close>

fun as_f64 :: "pynum \<Rightarrow> f64" where
  "as_f64 (PyInt a) = Fin (of_int a)"
| "as_f64 (PyFloat x) = x"

definition py_lt :: "pynum \<Rightarrow> pynum \<Rightarrow> bool" where
  "py_lt x y = flt (as_f64 x) (as_f64 y)"

definition py_gt :: "pynum \<Rightarrow> pynum \<Rightarrow> bool" where
  "py_gt x y = flt (as_f64 y) (as_f64 x)"

definition py_eq :: "pynum \<Rightarrow> pynum \<Rightarrow> bool" where
  "py_eq x y = feq (as_f64 x) (as_f64 y)"

definition py_le :: "pynum \<Rightarrow> pynum \<Rightarrow> bool" where
  "py_le x y = (py_lt x y \<or> py_eq x y)"

definition py_ge :: "pynum \<Rightarrow> pynum \<Rightarrow> bool" where
  "py_ge x y = (py_gt x y \<or> py_eq x y)"


text \<open>
  An argument as the caller passes it: an \<^verbatim>\<open>int\<close> or a \<^verbatim>\<open>float\<close>, a \<^verbatim>\<open>bool\<close>, or an
  object that is none of these (a \<^verbatim>\<open>str\<close>, \<^verbatim>\<open>None\<close>, ...). A \<^verbatim>\<open>bool\<close> is an \<^verbatim>\<open>int\<close>
  in Python: \<^verbatim>\<open>isinstance\<close> admits it, and it counts as 0 or 1 in comparisons and in
  arithmetic, whose result is then an int or a float. It differs from the int only in
  how it prints.
\<close>

datatype pyval = Num pynum | Bool bool | NotNum

text \<open>The number an argument counts as; \<open>None\<close> when it is not an int or a float.\<close>

fun num_of :: "pyval \<Rightarrow> pynum option" where
  "num_of (Num n) = Some n"
| "num_of (Bool b) = Some (PyInt (if b then 1 else 0))"
| "num_of NotNum = None"

fun valid_num :: "pynum \<Rightarrow> bool" where
  "valid_num (PyInt i) = True"
| "valid_num (PyFloat x) = valid_f64 x"

fun valid_val :: "pyval \<Rightarrow> bool" where
  "valid_val (Num n) = valid_num n"
| "valid_val (Bool b) = True"
| "valid_val NotNum = True"

section \<open>Strings\<close>

text \<open>
  \<^verbatim>\<open>str.upper()\<close> on ASCII symbols: the letters \<^verbatim>\<open>a\<close> to \<^verbatim>\<open>z\<close> (codes 97 to 122) move
  down by 32, every other character stays.
\<close>

definition upper_char :: "char \<Rightarrow> char" where
  "upper_char c =
     (let n = (of_char c :: nat) in if 97 \<le> n \<and> n \<le> 122 then char_of (n - 32) else c)"

definition upper :: "string \<Rightarrow> string" where
  "upper s = map upper_char s"

text \<open>The decimal digits of an int.\<close>

fun str_nat :: "nat \<Rightarrow> string" where
  "str_nat n =
     (if n < 10 then [char_of (48 + n)]
      else str_nat (n div 10) @ [char_of (48 + n mod 10)])"

declare str_nat.simps [simp del]

definition decimal :: "int \<Rightarrow> string" where
  "decimal i = (if i < 0 then CHR ''-'' # str_nat (nat (- i)) else str_nat (nat i))"

text \<open>
  The conversion of an int to a \<^verbatim>\<open>str\<close>, which an f-string applies to an int it prints.
  CPython (3.11 and later, and the security releases before it) refuses an int of more
  than \<^verbatim>\<open>sys.get_int_max_str_digits()\<close> digits, 4300 unless the interpreter is configured
  otherwise, and raises \<^verbatim>\<open>ValueError\<close>; the sign does not count.
\<close>

definition int_max_str_digits :: nat where
  "int_max_str_digits = 4300"

definition digits_message :: string where
  "digits_message =
     ''Exceeds the limit (4300 digits) for integer string conversion; '' @
     ''use sys.set_int_max_str_digits() to increase the limit''"

definition str_int :: "int \<Rightarrow> error + string" where
  "str_int i =
     (if 10 ^ int_max_str_digits \<le> \<bar>i\<bar> then Inl (ValueError digits_message)
      else Inr (decimal i))"

section \<open>The price table\<close>

text \<open>
  \<^verbatim>\<open>_test_prices\<close> is a module-level dict, which the tests replace to simulate a price
  change; the functions that read it take it as the parameter \<open>prices\<close>.
\<close>

type_synonym price_table = "(string \<times> f64) list"

definition test_prices :: price_table where
  "test_prices =
     [(''AAPL'', Fin 150), (''GOOGL'', Fin 2750), (''TSLA'', Fin (1401 / 2))]"

definition get_share_price :: "price_table \<Rightarrow> string \<Rightarrow> error + f64" where
  "get_share_price prices symbol =
     (let normalized_symbol = upper symbol
      in case map_of prices normalized_symbol of
           None \<Rightarrow> Inl (UnknownSymbolError (''No price data found for symbol: '' @ symbol))
         | Some price \<Rightarrow> Inr price)"

section \<open>The account\<close>

record transaction =
  tx_timestamp :: string
  tx_type :: string
  tx_symbol :: "string option"
  tx_quantity :: "int option"
  tx_price_per_share :: "f64 option"
  tx_total_amount :: pynum

text \<open>
  \<open>holdings\<close> is a Python dict: an association list with distinct keys in insertion
  order, the order in which \<^verbatim>\<open>get_portfolio_value\<close> adds the values up.
\<close>

record account =
  account_id :: string
  user_name :: string
  cash_balance :: pynum
  total_deposits :: pynum
  holdings :: "(string \<times> int) list"
  transactions :: "transaction list"

text \<open>\<^verbatim>\<open>d.get(k, default)\<close>, \<^verbatim>\<open>d[k] = v\<close> and \<^verbatim>\<open>del d[k]\<close>.\<close>

definition dict_get :: "(string \<times> int) list \<Rightarrow> string \<Rightarrow> int \<Rightarrow> int" where
  "dict_get d k dflt = (case map_of d k of None \<Rightarrow> dflt | Some v \<Rightarrow> v)"

fun dict_set :: "(string \<times> int) list \<Rightarrow> string \<Rightarrow> int \<Rightarrow> (string \<times> int) list" where
  "dict_set [] k v = [(k, v)]"
| "dict_set ((k', v') # d) k v = (if k' = k then (k, v) # d else (k', v') # dict_set d k v)"

definition dict_del :: "(string \<times> int) list \<Rightarrow> string \<Rightarrow> (string \<times> int) list" where
  "dict_del d k = filter (\<lambda>kv. fst kv \<noteq> k) d"

text \<open>
  \<^verbatim>\<open>_record_transaction\<close>; \<open>now\<close> is the reading of \<^verbatim>\<open>datetime.utcnow().isoformat()\<close>.
\<close>

definition record_transaction ::
  "string \<Rightarrow> string \<Rightarrow> string option \<Rightarrow> int option \<Rightarrow> f64 option \<Rightarrow> pynum \<Rightarrow> account \<Rightarrow> account"
where
  "record_transaction now type symbol quantity price_per_share total_amount self =
     self\<lparr>transactions := transactions self @
       [\<lparr>tx_timestamp = now,
         tx_type = type,
         tx_symbol = (case symbol of None \<Rightarrow> None
                      | Some sy \<Rightarrow> if sy \<noteq> [] then Some (upper sy) else None),
         tx_quantity = quantity,
         tx_price_per_share = price_per_share,
         tx_total_amount = total_amount\<rparr>]\<rparr>"

text \<open>
  \<^verbatim>\<open>Account.__init__\<close>. Comparing an object that is not a number with \<^verbatim>\<open>0\<close> raises
  \<^verbatim>\<open>TypeError\<close>.
\<close>

definition construct :: "string \<Rightarrow> string \<Rightarrow> string \<Rightarrow> pyval \<Rightarrow> error + account" where
  "construct now aid uname initial_deposit =
     (case num_of initial_deposit of
        None \<Rightarrow> Inl TypeError
      | Some d \<Rightarrow>
          if py_lt d (PyInt 0) then Inl (ValueError ''Initial deposit cannot be negative.'')
          else
            (let self = \<lparr>account_id = aid, user_name = uname, cash_balance = d,
                         total_deposits = d, holdings = [], transactions = []\<rparr>
             in Inr (if py_gt d (PyInt 0)
                     then record_transaction now ''DEPOSIT'' None None None d self
                     else self)))"

text \<open>
  A mutating method returns the exception it raised, if any, and the object as it is
  at that moment: an assignment made before the \<^verbatim>\<open>raise\<close> stays made. The symbol of
  a trade is a \<^verbatim>\<open>str\<close>, as the signatures say; on another object \<^verbatim>\<open>symbol.upper()\<close>
  raises before the first assignment.
\<close>

definition deposit :: "string \<Rightarrow> account \<Rightarrow> pyval \<Rightarrow> error option \<times> account" where
  "deposit now self amount =
     (case num_of amount of
        None \<Rightarrow> (Some (ValueError ''Deposit amount must be a positive number.''), self)
      | Some a \<Rightarrow>
          if py_le a (PyInt 0)
          then (Some (ValueError ''Deposit amount must be a positive number.''), self)
          else
            (case py_add (cash_balance self) a of
               Inl e \<Rightarrow> (Some e, self)
             | Inr c \<Rightarrow>
                 (let self1 = self\<lparr>cash_balance := c\<rparr>
                  in case py_add (total_deposits self1) a of
                       Inl e \<Rightarrow> (Some e, self1)
                     | Inr t \<Rightarrow>
                         (None, record_transaction now ''DEPOSIT'' None None None a
                                  (self1\<lparr>total_deposits := t\<rparr>)))))"

text \<open>
  The message of \<^verbatim>\<open>InsufficientFundsError\<close> prints both amounts with \<^verbatim>\<open>:,.2f\<close>, which
  converts an int to a float first; the error carries the two floats that are printed.
\<close>

definition fmt_2f :: "pynum \<Rightarrow> error + f64" where
  "fmt_2f x = (case x of PyInt i \<Rightarrow> to_float i | PyFloat y \<Rightarrow> Inr y)"

definition insufficient_funds :: "pynum \<Rightarrow> pynum \<Rightarrow> error" where
  "insufficient_funds requested balance =
     (case fmt_2f requested of
        Inl e \<Rightarrow> e
      | Inr r \<Rightarrow> (case fmt_2f balance of
                   Inl e \<Rightarrow> e
                 | Inr b \<Rightarrow> InsufficientFundsError (PyFloat r) (PyFloat b)))"

definition withdraw :: "string \<Rightarrow> account \<Rightarrow> pyval \<Rightarrow> error option \<times> account" where
  "withdraw now self amount =
     (case num_of amount of
        None \<Rightarrow> (Some (ValueError ''Withdrawal amount must be a positive number.''), self)
      | Some a \<Rightarrow>
          if py_le a (PyInt 0)
          then (Some (ValueError ''Withdrawal amount must be a positive number.''), self)
          else if py_gt a (cash_balance self)
          then (Some (insufficient_funds a (cash_balance self)), self)
          else
            (case py_sub (cash_balance self) a of
               Inl e \<Rightarrow> (Some e, self)
             | Inr c \<Rightarrow>
                 (None, record_transaction now ''WITHDRAW'' None None None a
                          (self\<lparr>cash_balance := c\<rparr>))))"

text \<open>\<^verbatim>\<open>isinstance(quantity, int)\<close> and \<^verbatim>\<open>quantity > 0\<close>.\<close>

fun positive_int :: "pyval \<Rightarrow> int option" where
  "positive_int (Num (PyInt q)) = (if q \<le> 0 then None else Some q)"
| "positive_int (Bool b) = (if b then Some 1 else None)"
| "positive_int _ = None"

definition buy_shares ::
  "price_table \<Rightarrow> string \<Rightarrow> account \<Rightarrow> string \<Rightarrow> pyval \<Rightarrow> error option \<times> account"
where
  "buy_shares prices now self symbol quantity =
     (case positive_int quantity of
        None \<Rightarrow> (Some (ValueError ''Quantity to buy must be a positive integer.''), self)
      | Some q \<Rightarrow>
         (case get_share_price prices symbol of
            Inl e \<Rightarrow> (Some e, self)
          | Inr price \<Rightarrow>
             (case py_mul (PyFloat price) (PyInt q) of
                Inl e \<Rightarrow> (Some e, self)
              | Inr total_cost \<Rightarrow>
                 if py_gt total_cost (cash_balance self)
                 then (Some (insufficient_funds total_cost (cash_balance self)), self)
                 else
                  (case py_sub (cash_balance self) total_cost of
                     Inl e \<Rightarrow> (Some e, self)
                   | Inr c \<Rightarrow>
                      (let self1 = self\<lparr>cash_balance := c\<rparr>;
                           normalized_symbol = upper symbol;
                           self2 = self1\<lparr>holdings :=
                             dict_set (holdings self1) normalized_symbol
                               (dict_get (holdings self1) normalized_symbol 0 + q)\<rparr>
                       in (None, record_transaction now ''BUY'' (Some symbol) (Some q)
                                   (Some price) total_cost self2))))))"

text \<open>
  The quantity as an f-string prints it: a \<^verbatim>\<open>bool\<close> prints as \<^verbatim>\<open>True\<close> or \<^verbatim>\<open>False\<close>, an
  int in decimal. \<open>q\<close> is the int the quantity counts as.
\<close>

fun str_quantity :: "pyval \<Rightarrow> int \<Rightarrow> error + string" where
  "str_quantity (Bool b) q = Inr (if b then ''True'' else ''False'')"
| "str_quantity quantity q = str_int q"

text \<open>
  The message of \<^verbatim>\<open>InsufficientSharesError\<close>, an f-string that prints the quantity, the
  normalized symbol and the owned quantity, in this order; when a conversion raises,
  the exception of the conversion is what \<^verbatim>\<open>sell_shares\<close> raises.
\<close>

definition shares_message :: "pyval \<Rightarrow> int \<Rightarrow> string \<Rightarrow> int \<Rightarrow> error + string" where
  "shares_message quantity q normalized_symbol shares_owned =
     (case str_quantity quantity q of
        Inl e \<Rightarrow> Inl e
      | Inr printed_quantity \<Rightarrow>
         (case str_int shares_owned of
            Inl e \<Rightarrow> Inl e
          | Inr printed_owned \<Rightarrow>
             Inr (''Cannot sell '' @ printed_quantity @ '' shares of '' @ normalized_symbol @
                  ''. Only '' @ printed_owned @ '' shares are owned.'')))"

definition insufficient_shares :: "pyval \<Rightarrow> int \<Rightarrow> string \<Rightarrow> int \<Rightarrow> error" where
  "insufficient_shares quantity q normalized_symbol shares_owned =
     (case shares_message quantity q normalized_symbol shares_owned of
        Inl e \<Rightarrow> e
      | Inr message \<Rightarrow> InsufficientSharesError message)"

definition sell_shares ::
  "price_table \<Rightarrow> string \<Rightarrow> account \<Rightarrow> string \<Rightarrow> pyval \<Rightarrow> error option \<times> account"
where
  "sell_shares prices now self symbol quantity =
     (case positive_int quantity of
        None \<Rightarrow> (Some (ValueError ''Quantity to sell must be a positive integer.''), self)
      | Some q \<Rightarrow>
         (let normalized_symbol = upper symbol;
              shares_owned = dict_get (holdings self) normalized_symbol 0
          in if shares_owned < q
             then (Some (insufficient_shares quantity q normalized_symbol shares_owned), self)
             else
              (case get_share_price prices symbol of
                 Inl e \<Rightarrow> (Some e, self)
               | Inr price \<Rightarrow>
                  (case py_mul (PyFloat price) (PyInt q) of
                     Inl e \<Rightarrow> (Some e, self)
                   | Inr total_value \<Rightarrow>
                      (case py_add (cash_balance self) total_value of
                         Inl e \<Rightarrow> (Some e, self)
                       | Inr c \<Rightarrow>
                          (let self1 = self\<lparr>cash_balance := c\<rparr>
                           in case map_of (holdings self1) normalized_symbol of
                                None \<Rightarrow> (Some (KeyError normalized_symbol), self1)
                              | Some v \<Rightarrow>
                                 (let self2 = self1\<lparr>holdings :=
                                        dict_set (holdings self1) normalized_symbol (v - q)\<rparr>;
                                      self3 =
                                        (if dict_get (holdings self2) normalized_symbol 0 = 0
                                         then self2\<lparr>holdings :=
                                                dict_del (holdings self2) normalized_symbol\<rparr>
                                         else self2)
                                  in (None, record_transaction now ''SELL'' (Some symbol)
                                              (Some q) (Some price) total_value self3))))))))"

subsection \<open>Read-only methods\<close>

definition get_cash_balance :: "account \<Rightarrow> pynum" where
  "get_cash_balance self = cash_balance self"

definition get_holdings :: "account \<Rightarrow> (string \<times> int) list" where
  "get_holdings self = holdings self"

text \<open>
  The loop of \<^verbatim>\<open>get_portfolio_value\<close>: only \<^verbatim>\<open>UnknownSymbolError\<close> is caught, and the
  holding it came from is skipped.
\<close>

fun portfolio_loop :: "price_table \<Rightarrow> pynum \<Rightarrow> (string \<times> int) list \<Rightarrow> error + pynum" where
  "portfolio_loop prices total_value [] = Inr total_value"
| "portfolio_loop prices total_value ((symbol, quantity) # rest) =
     (case get_share_price prices symbol of
        Inl (UnknownSymbolError m) \<Rightarrow> portfolio_loop prices total_value rest
      | Inl e \<Rightarrow> Inl e
      | Inr price \<Rightarrow>
         (case py_mul (PyFloat price) (PyInt quantity) of
            Inl e \<Rightarrow> Inl e
          | Inr v \<Rightarrow>
             (case py_add total_value v of
                Inl e \<Rightarrow> Inl e
              | Inr t \<Rightarrow> portfolio_loop prices t rest)))"

definition get_portfolio_value :: "price_table \<Rightarrow> account \<Rightarrow> error + pynum" where
  "get_portfolio_value prices self = portfolio_loop prices (PyFloat (Fin 0)) (holdings self)"

definition get_total_value :: "price_table \<Rightarrow> account \<Rightarrow> error + pynum" where
  "get_total_value prices self =
     (case get_portfolio_value prices self of
        Inl e \<Rightarrow> Inl e
      | Inr pv \<Rightarrow> py_add (get_cash_balance self) pv)"

definition get_profit_loss :: "price_table \<Rightarrow> account \<Rightarrow> error + pynum" where
  "get_profit_loss prices self =
     (case get_total_value prices self of
        Inl e \<Rightarrow> Inl e
      | Inr tv \<Rightarrow> py_sub tv (total_deposits self))"


section \<open>Reachable states\<close>

datatype op =
    Deposit pyval
  | Withdraw pyval
  | Buy string pyval
  | Sell string pyval

fun step :: "price_table \<Rightarrow> string \<Rightarrow> account \<Rightarrow> op \<Rightarrow> error option \<times> account" where
  "step prices now self (Deposit amount) = deposit now self amount"
| "step prices now self (Withdraw amount) = withdraw now self amount"
| "step prices now self (Buy symbol quantity) = buy_shares prices now self symbol quantity"
| "step prices now self (Sell symbol quantity) = sell_shares prices now self symbol quantity"

fun arg :: "op \<Rightarrow> pyval" where
  "arg (Deposit amount) = amount"
| "arg (Withdraw amount) = amount"
| "arg (Buy symbol quantity) = quantity"
| "arg (Sell symbol quantity) = quantity"

text \<open>The price collaborator returns positive amounts.\<close>

definition positive_prices :: "price_table \<Rightarrow> bool" where
  "positive_prices prices = list_all (\<lambda>kp. flt (Fin 0) (snd kp)) prices"

text \<open>
  The states an account goes through: constructed, then any sequence of calls of the
  four mutating methods, whether a call returns or raises, on floats that are floats and
  with a price table of positive prices.
\<close>

inductive reachable :: "account \<Rightarrow> bool" where
  reachable_init:
    "valid_val d \<Longrightarrow> construct now aid uname d = Inr s \<Longrightarrow> reachable s"
| reachable_step:
    "reachable s \<Longrightarrow> positive_prices prices \<Longrightarrow> valid_val (arg x) \<Longrightarrow>
     step prices now s x = (r, s') \<Longrightarrow> reachable s'"

text \<open>
  \<open>completed d s\<close>: \<open>s\<close> is the state after \<^verbatim>\<open>Account(.., initial_deposit=d)\<close> and a
  sequence of calls that all returned.
\<close>

inductive completed :: "pynum \<Rightarrow> account \<Rightarrow> bool" where
  completed_init:
    "construct now aid uname (Num d) = Inr s \<Longrightarrow> completed d s"
| completed_step:
    "completed d s \<Longrightarrow> step prices now s x = (None, s') \<Longrightarrow> completed d s'"

section \<open>Scenarios\<close>

text \<open>The account of the test suite: \<^verbatim>\<open>Account("acc123", "Test User", initial_deposit=10000.0)\<close>.\<close>

definition test_account :: account where
  "test_account =
     \<lparr>account_id = ''acc123'', user_name = ''Test User'',
      cash_balance = PyFloat (Fin 10000), total_deposits = PyFloat (Fin 10000),
      holdings = [],
      transactions =
        [\<lparr>tx_timestamp = ''t0'', tx_type = ''DEPOSIT'', tx_symbol = None, tx_quantity = None,
          tx_price_per_share = None, tx_total_amount = PyFloat (Fin 10000)\<rparr>]\<rparr>"

text \<open>\<^verbatim>\<open>Account("acc123", "Test User")\<close>, with the default initial deposit \<^verbatim>\<open>0.0\<close>.\<close>

definition new_account :: account where
  "new_account =
     \<lparr>account_id = ''acc123'', user_name = ''Test User'',
      cash_balance = PyFloat (Fin 0), total_deposits = PyFloat (Fin 0),
      holdings = [], transactions = []\<rparr>"

text \<open>
  \<^verbatim>\<open>acc.deposit(float('inf'))\<close> followed by \<^verbatim>\<open>acc.withdraw(float('inf'))\<close> on the new account.
\<close>

definition nan_account :: account where
  "nan_account =
     snd (withdraw ''t2'' (snd (deposit ''t1'' new_account (Num (PyFloat PInf))))
            (Num (PyFloat PInf)))"

text \<open>\<^verbatim>\<open>buy_shares('AAPL', 5)\<close> and \<^verbatim>\<open>buy_shares('AAPL', 10)\<close> on the account of the test suite.\<close>

definition aapl5_account :: account where
  "aapl5_account = snd (buy_shares test_prices ''t1'' test_account ''AAPL'' (Num (PyInt 5)))"

definition aapl10_account :: account where
  "aapl10_account = snd (buy_shares test_prices ''t1'' test_account ''AAPL'' (Num (PyInt 10)))"

text \<open>The price table after the price of AAPL rose from 150 to 160.\<close>

definition raised_prices :: price_table where
  "raised_prices =
     [(''AAPL'', Fin 160), (''GOOGL'', Fin 2750), (''TSLA'', Fin (1401 / 2))]"

text \<open>
  \<^verbatim>\<open>Account("acc123", "Test User", 0)\<close>, with the int \<^verbatim>\<open>0\<close>, and the account after
  \<^verbatim>\<open>deposit(2**1024)\<close> and \<^verbatim>\<open>withdraw(2**1024)\<close>: its cash is the int \<^verbatim>\<open>0\<close> again and its
  \<^verbatim>\<open>_total_deposits\<close> is an int beyond the range of floats.
\<close>

definition int_account :: account where
  "int_account =
     \<lparr>account_id = ''acc123'', user_name = ''Test User'',
      cash_balance = PyInt 0, total_deposits = PyInt 0,
      holdings = [], transactions = []\<rparr>"

definition huge :: int where
  "huge = 2 ^ 1024"

text \<open>\<^verbatim>\<open>10**4300\<close>, the least int of 4301 digits.\<close>

definition many_digits :: int where
  "many_digits = 10 ^ 4300"

definition big_account :: account where
  "big_account =
     snd (withdraw ''t2'' (snd (deposit ''t1'' int_account (Num (PyInt huge))))
            (Num (PyInt huge)))"

section \<open>The guards as the specification words them\<close>

text \<open>
  The specification of deposit and withdraw: the amount is rejected unless it is
  "a positive finite number".
\<close>

fun positive_finite :: "pyval \<Rightarrow> bool" where
  "positive_finite (Num (PyInt i)) = (0 < i)"
| "positive_finite (Num (PyFloat (Fin r))) = (0 < r)"
| "positive_finite (Bool b) = b"
| "positive_finite _ = False"

text \<open>
  The guard of the code: \<^verbatim>\<open>not isinstance(amount, (int, float)) or amount <= 0\<close>.
\<close>

fun rejected_amount :: "pyval \<Rightarrow> bool" where
  "rejected_amount NotNum = True"
| "rejected_amount (Num a) = py_le a (PyInt 0)"
| "rejected_amount (Bool b) = py_le (PyInt (if b then 1 else 0)) (PyInt 0)"

section \<open>The portfolio value as the specification words it\<close>

text \<open>
  "Sum over all holdings of \<^verbatim>\<open>price_lookup(symbol) * quantity\<close>", where a holding whose
  price lookup fails with \<^verbatim>\<open>UnknownSymbol\<close> "contributes 0 to the total and processing
  continues for remaining holdings": every holding has a value, which is \<^verbatim>\<open>0.0\<close> for an
  unknown symbol, and the values are added up in the order of the holdings.
\<close>

fun holding_value :: "price_table \<Rightarrow> string \<times> int \<Rightarrow> error + pynum" where
  "holding_value prices (symbol, quantity) =
     (case get_share_price prices symbol of
        Inl (UnknownSymbolError m) \<Rightarrow> Inr (PyFloat (Fin 0))
      | Inl e \<Rightarrow> Inl e
      | Inr price \<Rightarrow> py_mul (PyFloat price) (PyInt quantity))"

fun sum_values :: "price_table \<Rightarrow> pynum \<Rightarrow> (string \<times> int) list \<Rightarrow> error + pynum" where
  "sum_values prices acc [] = Inr acc"
| "sum_values prices acc (h # hs) =
     (case holding_value prices h of
        Inl e \<Rightarrow> Inl e
      | Inr v \<Rightarrow> (case py_add acc v of
                   Inl e \<Rightarrow> Inl e
                 | Inr t \<Rightarrow> sum_values prices t hs))"

definition portfolio_sum :: "price_table \<Rightarrow> (string \<times> int) list \<Rightarrow> error + pynum" where
  "portfolio_sum prices hs = sum_values prices (PyFloat (Fin 0)) hs"

section \<open>Round trips\<close>

text \<open>
  \<^verbatim>\<open>Account("acc123", "Test User", initial_deposit=9007199254742994.0)\<close>, that is
  \<^verbatim>\<open>2**53 + 2002\<close>, a binary64 number; then \<^verbatim>\<open>buy_shares('TSLA', 2)\<close> and
  \<^verbatim>\<open>sell_shares('TSLA', 2)\<close>.
\<close>

definition rich_account :: account where
  "rich_account =
     \<lparr>account_id = ''acc123'', user_name = ''Test User'',
      cash_balance = PyFloat (Fin 9007199254742994),
      total_deposits = PyFloat (Fin 9007199254742994),
      holdings = [],
      transactions =
        [\<lparr>tx_timestamp = ''t0'', tx_type = ''DEPOSIT'', tx_symbol = None, tx_quantity = None,
          tx_price_per_share = None, tx_total_amount = PyFloat (Fin 9007199254742994)\<rparr>]\<rparr>"

definition rich_bought :: account where
  "rich_bought = snd (buy_shares test_prices ''t1'' rich_account ''TSLA'' (Num (PyInt 2)))"

definition rich_sold :: account where
  "rich_sold = snd (sell_shares test_prices ''t2'' rich_bought ''TSLA'' (Num (PyInt 2)))"

text \<open>
  A purchase is exact when the cash before it is a float value (a float, or an int that
  converts without rounding) and the cash after it is that value minus the recorded cost,
  with no rounding in the subtraction.
\<close>

definition exact_purchase :: "account \<Rightarrow> account \<Rightarrow> bool" where
  "exact_purchase s s1 =
     (case (as_f64 (cash_balance s), tx_total_amount (last (transactions s1)), cash_balance s1) of
        (Fin c, PyFloat (Fin t), PyFloat (Fin c1)) \<Rightarrow> round64 c = Fin c \<and> c1 = c - t
      | _ \<Rightarrow> False)"

section \<open>The balances and the transaction log\<close>

text \<open>
  The balances as a formula over the log: the sum of the amounts of the DEPOSIT records,
  and that sum minus the WITHDRAW amounts, minus the BUY amounts, plus the SELL amounts.
  The sums are taken in the arithmetic of the code (from the int 0, adding from left to
  right), and also as exact sums of the recorded values.
\<close>

definition amounts :: "string \<Rightarrow> transaction list \<Rightarrow> pynum list" where
  "amounts kind txs = map tx_total_amount (filter (\<lambda>t. tx_type t = kind) txs)"

fun py_sum_from :: "pynum \<Rightarrow> pynum list \<Rightarrow> error + pynum" where
  "py_sum_from acc [] = Inr acc"
| "py_sum_from acc (x # xs) =
     (case py_add acc x of Inl e \<Rightarrow> Inl e | Inr t \<Rightarrow> py_sum_from t xs)"

definition py_sum :: "pynum list \<Rightarrow> error + pynum" where
  "py_sum xs = py_sum_from (PyInt 0) xs"

definition balance_from_log :: "transaction list \<Rightarrow> error + pynum" where
  "balance_from_log txs =
     (case py_sum (amounts ''DEPOSIT'' txs) of Inl e \<Rightarrow> Inl e | Inr d \<Rightarrow>
      case py_sum (amounts ''WITHDRAW'' txs) of Inl e \<Rightarrow> Inl e | Inr w \<Rightarrow>
      case py_sum (amounts ''BUY'' txs) of Inl e \<Rightarrow> Inl e | Inr b \<Rightarrow>
      case py_sum (amounts ''SELL'' txs) of Inl e \<Rightarrow> Inl e | Inr s \<Rightarrow>
      case py_sub d w of Inl e \<Rightarrow> Inl e | Inr x \<Rightarrow>
      case py_sub x b of Inl e \<Rightarrow> Inl e | Inr y \<Rightarrow> py_add y s)"

fun rat_value :: "pynum \<Rightarrow> rat" where
  "rat_value (PyInt i) = of_int i"
| "rat_value (PyFloat (Fin r)) = r"
| "rat_value (PyFloat _) = 0"

definition exact_total :: "string \<Rightarrow> transaction list \<Rightarrow> rat" where
  "exact_total kind txs = sum_list (map rat_value (amounts kind txs))"

definition exact_balance :: "transaction list \<Rightarrow> rat" where
  "exact_balance txs =
     exact_total ''DEPOSIT'' txs - exact_total ''WITHDRAW'' txs - exact_total ''BUY'' txs
       + exact_total ''SELL'' txs"

text \<open>
  What the methods do to the two balances, read off a record: the replay of a log, record
  by record, in the arithmetic of the code.
\<close>

fun replay_tx :: "pynum \<times> pynum \<Rightarrow> transaction \<Rightarrow> error + pynum \<times> pynum" where
  "replay_tx (cash, deposited) tx =
     (let a = tx_total_amount tx
      in if tx_type tx = ''DEPOSIT''
         then (case py_add cash a of
                 Inl e \<Rightarrow> Inl e
               | Inr c \<Rightarrow> (case py_add deposited a of Inl e \<Rightarrow> Inl e | Inr t \<Rightarrow> Inr (c, t)))
         else if tx_type tx = ''WITHDRAW'' \<or> tx_type tx = ''BUY''
         then (case py_sub cash a of Inl e \<Rightarrow> Inl e | Inr c \<Rightarrow> Inr (c, deposited))
         else if tx_type tx = ''SELL''
         then (case py_add cash a of Inl e \<Rightarrow> Inl e | Inr c \<Rightarrow> Inr (c, deposited))
         else Inr (cash, deposited))"

fun replay :: "pynum \<times> pynum \<Rightarrow> transaction list \<Rightarrow> error + pynum \<times> pynum" where
  "replay ct [] = Inr ct"
| "replay ct (tx # txs) =
     (case replay_tx ct tx of Inl e \<Rightarrow> Inl e | Inr ct' \<Rightarrow> replay ct' txs)"

text \<open>The records after the one of the initial deposit, which exists when it is positive.\<close>

definition later_log :: "pynum \<Rightarrow> transaction list \<Rightarrow> transaction list" where
  "later_log d txs = (if py_gt d (PyInt 0) then tl txs else txs)"

text \<open>
  \<^verbatim>\<open>Account("acc123", "Test User", initial_deposit=9007199254740992.0)\<close>, that is
  \<^verbatim>\<open>2.0**53\<close>, then \<^verbatim>\<open>deposit(1.0)\<close>, \<^verbatim>\<open>withdraw(9007199254740992.0)\<close>, \<^verbatim>\<open>deposit(1.0)\<close>.
\<close>

definition pow53_account :: account where
  "pow53_account =
     \<lparr>account_id = ''acc123'', user_name = ''Test User'',
      cash_balance = PyFloat (Fin 9007199254740992),
      total_deposits = PyFloat (Fin 9007199254740992),
      holdings = [],
      transactions =
        [\<lparr>tx_timestamp = ''t0'', tx_type = ''DEPOSIT'', tx_symbol = None, tx_quantity = None,
          tx_price_per_share = None, tx_total_amount = PyFloat (Fin 9007199254740992)\<rparr>]\<rparr>"

definition log_account :: account where
  "log_account =
     snd (deposit ''t3''
       (snd (withdraw ''t2''
          (snd (deposit ''t1'' pow53_account (Num (PyFloat (Fin 1)))))
          (Num (PyFloat (Fin 9007199254740992)))))
       (Num (PyFloat (Fin 1))))"

section \<open>Properties of rounding\<close>

lemma pow2_powi: "pow2 e = 2 powi e"
  by (simp add: pow2_def power_int_def power_one_over inverse_eq_divide)

lemma pow2_pos [simp]: "0 < pow2 e"
  by (simp add: pow2_powi)

lemma pow2_nonneg [simp]: "0 \<le> pow2 e"
  using pow2_pos [of e] by (rule less_imp_le)

lemma pow2_ne0 [simp]: "pow2 e \<noteq> 0"
  using pow2_pos [of e] by (rule less_imp_neq [THEN not_sym])

lemma pow2_add: "pow2 (a + b) = pow2 a * pow2 b"
  by (simp add: pow2_powi power_int_add)

lemma pow2_less: "a < b \<Longrightarrow> pow2 a < pow2 b"
  by (simp add: pow2_powi power_int_strict_increasing)

lemma pow2_le: "a \<le> b \<Longrightarrow> pow2 a \<le> pow2 b"
  by (simp add: pow2_powi power_int_increasing)

lemma pow2_less_cancel: "pow2 a < pow2 b \<Longrightarrow> a < b"
  using pow2_le [of b a] by (cases "a < b") auto

lemma pow2_nat: "0 \<le> e \<Longrightarrow> pow2 e = of_int (2 ^ nat e)"
  by (simp add: pow2_def)

lemma pow2_neg: "0 \<le> e \<Longrightarrow> pow2 (- e) = 1 / of_int (2 ^ nat e)"
  by (cases "e = 0") (simp_all add: pow2_def)

lemma bits_nonneg: "0 \<le> bits i"
  by (induction i rule: bits.induct) (simp add: bits.simps)

lemma bits_pos: "0 < i \<Longrightarrow> 0 < bits i"
  using bits_nonneg [of "i div 2"] by (subst bits.simps) simp

lemma bits_bounds: "0 < i \<Longrightarrow> 2 ^ nat (bits i - 1) \<le> i \<and> i < 2 ^ nat (bits i)"
proof (induction i rule: bits.induct)
  case (1 i)
  show ?case
  proof (cases "i = 1")
    case True
    have "bits 1 = 1" by (simp add: bits.simps)
    with True show ?thesis by simp
  next
    case False
    with "1.prems" have j: "0 < i div 2" by simp
    with "1.prems" "1.IH" have ih: "2 ^ nat (bits (i div 2) - 1) \<le> i div 2" "i div 2 < 2 ^ nat (bits (i div 2))"
      by auto
    have bj: "0 < bits (i div 2)" using j by (rule bits_pos)
    have bi: "bits i = 1 + bits (i div 2)" using "1.prems" by (subst bits.simps) simp
    have e1: "nat (bits i - 1) = Suc (nat (bits (i div 2) - 1))" using bi bj by simp
    have e2: "nat (bits i) = Suc (nat (bits (i div 2)))" using bi bj by simp
    show ?thesis unfolding e1 e2 using ih by simp presburger
  qed
qed

lemma fl2_bounds:
  assumes "0 < a"
  shows "pow2 (fl2 a) \<le> a \<and> a < pow2 (fl2 a + 1)"
proof (cases "1 \<le> a")
  case True
  define i where "i = \<lfloor>a\<rfloor>"
  have ipos: "0 < i" using True by (simp add: i_def)
  have b: "2 ^ nat (bits i - 1) \<le> i" "i < 2 ^ nat (bits i)" using bits_bounds [OF ipos] by auto
  have f: "fl2 a = bits i - 1" using True by (simp add: fl2_def i_def)
  have bp: "0 < bits i" using ipos by (rule bits_pos)
  have "of_int (2 ^ nat (bits i - 1)) \<le> (of_int i :: rat)" using b(1) by (simp only: of_int_le_iff)
  also have "\<dots> \<le> a" by (simp add: i_def)
  finally have l: "pow2 (fl2 a) \<le> a" using bp by (simp add: f pow2_nat)
  have "i + 1 \<le> 2 ^ nat (bits i)" using b(2) by simp
  then have "(of_int (i + 1) :: rat) \<le> of_int (2 ^ nat (bits i))" by (simp only: of_int_le_iff)
  moreover have "a < of_int (i + 1)" unfolding i_def by linarith
  ultimately have "a < pow2 (fl2 a + 1)" using bp by (simp add: f pow2_nat)
  with l show ?thesis by simp
next
  case False
  define i where "i = \<lfloor>1 / a\<rfloor>"
  have "1 < 1 / a" using False assms by simp
  then have ipos: "0 < i" by (simp add: i_def)
  define b where "b = bits i"
  have bb: "2 ^ nat (b - 1) \<le> i" "i < 2 ^ nat b" using bits_bounds [OF ipos] by (auto simp: b_def)
  have bp: "0 < b" unfolding b_def using ipos by (rule bits_pos)
  have "(of_int (2 ^ nat (b - 1)) :: rat) \<le> of_int i" using bb(1) by (simp only: of_int_le_iff)
  also have "\<dots> \<le> 1 / a" by (simp add: i_def)
  finally have "of_int (2 ^ nat (b - 1)) \<le> 1 / a" .
  moreover have p1: "pow2 (- (b - 1)) = 1 / of_int (2 ^ nat (b - 1))"
    using bp by (intro pow2_neg) simp
  ultimately have u: "a \<le> pow2 (- (b - 1))" using assms
    by (simp only: p1) (simp add: field_simps)
  have "i + 1 \<le> 2 ^ nat b" using bb(2) by simp
  then have "(of_int (i + 1) :: rat) \<le> of_int (2 ^ nat b)" by (simp only: of_int_le_iff)
  moreover have "1 / a < of_int (i + 1)" unfolding i_def by linarith
  ultimately have "1 / a < of_int (2 ^ nat b)" by simp
  moreover have p2: "pow2 (- b) = 1 / of_int (2 ^ nat b)"
    using bp by (intro pow2_neg) simp
  ultimately have l: "pow2 (- b) < a" using assms
    by (simp only: p2) (simp add: field_simps)
  have m: "pow2 (- (b - 1)) * pow2 (b - 1) = 1"
    using pow2_add [of "- (b - 1)" "b - 1"] by (simp add: pow2_def)
  show ?thesis
  proof (cases "a * pow2 (b - 1) = 1")
    case True
    then have "a = pow2 (- (b - 1))" using m
      by (metis mult_cancel_right pow2_pos less_irrefl)
    moreover have "fl2 a = - (b - 1)" using False True by (simp add: fl2_def i_def b_def Let_def)
    ultimately show ?thesis using pow2_less [of "- (b - 1)" "- (b - 1) + 1"] by simp
  next
    case ne: False
    have f: "fl2 a = - b" using False ne by (simp add: fl2_def i_def b_def Let_def)
    have "a \<noteq> pow2 (- (b - 1))" using ne m by auto
    with u have "a < pow2 (- b + 1)" by simp
    with l show ?thesis by (simp add: f)
  qed
qed

lemma fl2_unique:
  assumes "0 < a" "pow2 k \<le> a" "a < pow2 (k + 1)"
  shows "fl2 a = k"
proof -
  from fl2_bounds [OF assms(1)] have b: "pow2 (fl2 a) \<le> a" "a < pow2 (fl2 a + 1)" by auto
  have "pow2 (fl2 a) < pow2 (k + 1)" using b(1) assms(3) by simp
  then have "fl2 a < k + 1" by (rule pow2_less_cancel)
  moreover have "pow2 k < pow2 (fl2 a + 1)" using b(2) assms(2) by simp
  then have "k < fl2 a + 1" by (rule pow2_less_cancel)
  ultimately show ?thesis by simp
qed

lemma fl2_mono:
  assumes "0 < a" "a \<le> b"
  shows "fl2 a \<le> fl2 b"
proof -
  have bp: "0 < b" using assms by simp
  have "pow2 (fl2 a) \<le> a" using fl2_bounds [OF assms(1)] by simp
  also have "a \<le> b" by fact
  also have "b < pow2 (fl2 b + 1)" using fl2_bounds [OF bp] by simp
  finally have "fl2 a < fl2 b + 1" by (rule pow2_less_cancel)
  then show ?thesis by simp
qed

lemma rhe_of_int [simp]: "round_half_even (of_int n) = n"
  by (simp add: round_half_even_def)

lemma rhe_ge_floor: "\<lfloor>m\<rfloor> \<le> round_half_even m"
  by (simp add: round_half_even_def Let_def)

lemma rhe_le_ceiling: "round_half_even m \<le> \<lceil>m\<rceil>"
proof (cases "m = of_int \<lfloor>m\<rfloor>")
  case True
  then have "round_half_even m = \<lfloor>m\<rfloor>" by (metis rhe_of_int)
  then show ?thesis by (simp add: floor_le_ceiling)
next
  case False
  then have "\<lceil>m\<rceil> = \<lfloor>m\<rfloor> + 1" by (metis ceiling_altdef)
  then show ?thesis by (simp add: round_half_even_def Let_def)
qed

lemma rhe_lower: "of_int z \<le> m \<Longrightarrow> z \<le> round_half_even m"
proof -
  assume "of_int z \<le> m"
  then have "z \<le> \<lfloor>m\<rfloor>" by (simp add: le_floor_iff)
  then show ?thesis using rhe_ge_floor [of m] by linarith
qed

lemma rhe_upper: "m \<le> of_int z \<Longrightarrow> round_half_even m \<le> z"
proof -
  assume "m \<le> of_int z"
  then have "\<lceil>m\<rceil> \<le> z" by (simp add: ceiling_le_iff)
  then show ?thesis using rhe_le_ceiling [of m] by linarith
qed


lemma round_mag_expo:
  "round_mag a =
     (let r = of_int (round_half_even (a / pow2 (expo a))) * pow2 (expo a)
      in if 2 ^ 1024 \<le> r then None else Some r)"
  by (simp only: round_mag_def Let_def)

lemma expo_mono: "0 < a \<Longrightarrow> a \<le> b \<Longrightarrow> expo a \<le> expo b"
  using fl2_mono [of a b] by (simp add: expo_def)

lemma on_grid: "of_int (round_half_even (of_int z * pow2 e / pow2 e)) * pow2 e = of_int z * pow2 e"
  by simp

lemma grid_coarsen:
  assumes "e' \<le> e"
  shows "of_int m * pow2 e = of_int (m * 2 ^ nat (e - e')) * pow2 e'"
proof -
  have "pow2 e = pow2 (e - e') * pow2 e'" using pow2_add [of "e - e'" e'] by simp
  moreover have "pow2 (e - e') = of_int (2 ^ nat (e - e'))" using assms by (intro pow2_nat) simp
  ultimately show ?thesis by simp
qed

lemma round_mag_nonneg:
  assumes "0 < a" "round_mag a = Some r"
  shows "0 \<le> r"
proof -
  have "0 \<le> a / pow2 (expo a)" using assms(1) by (intro divide_nonneg_pos) simp_all
  then have "0 \<le> round_half_even (a / pow2 (expo a))" using rhe_lower [of 0] by simp
  then have "0 \<le> (of_int (round_half_even (a / pow2 (expo a))) :: rat) * pow2 (expo a)" by simp
  then show ?thesis using assms(2) by (simp add: round_mag_expo Let_def split: if_splits)
qed

lemma round_mag_exact:
  assumes m: "0 < m" "m \<le> 2 ^ 53" and e: "- 1074 \<le> e"
    and lt: "of_int m * pow2 e < 2 ^ 1024"
  shows "round_mag (of_int m * pow2 e) = Some (of_int m * pow2 e)"
proof -
  define a :: rat where "a = of_int m * pow2 e"
  have apos: "0 < a" using m(1) by (simp add: a_def)
  have "\<exists>z. a = of_int z * pow2 (expo a)"
  proof (cases "m = 2 ^ 53")
    case True
    have a53: "a = pow2 (53 + e)" unfolding a_def True using pow2_add [of 53 e] by (simp add: pow2_def)
    have "fl2 a = 53 + e"
      using apos by (rule fl2_unique) (simp_all add: a53 pow2_less)
    then have ex: "expo a = e + 1" using e by (simp add: expo_def)
    have "a = of_int (2 ^ 52) * pow2 (e + 1)"
      unfolding a53 using pow2_add [of 52 "e + 1"] by (simp add: pow2_def)
    then show ?thesis unfolding ex by blast
  next
    case False
    with m(2) have "m + 1 \<le> 2 ^ 53" by simp
    then have "(of_int (m + 1) :: rat) \<le> of_int (2 ^ 53)" by (simp only: of_int_le_iff)
    then have "(of_int m :: rat) < 2 ^ 53" by simp
    then have "a < 2 ^ 53 * pow2 e" by (simp add: a_def)
    also have "\<dots> = pow2 (53 + e)" using pow2_add [of 53 e] by (simp add: pow2_def)
    finally have "a < pow2 (53 + e)" .
    moreover have "pow2 (fl2 a) \<le> a" using fl2_bounds [OF apos] by simp
    ultimately have "pow2 (fl2 a) < pow2 (53 + e)" by simp
    then have "fl2 a < 53 + e" by (rule pow2_less_cancel)
    then have "expo a \<le> e" using e by (simp add: expo_def)
    then show ?thesis unfolding a_def using grid_coarsen by blast
  qed
  then obtain z where z: "a = of_int z * pow2 (expo a)" ..
  have "of_int (round_half_even (a / pow2 (expo a))) * pow2 (expo a) = a"
    by (subst (1 3) z) simp
  then have "round_mag a = Some a" using lt by (simp add: round_mag_expo a_def)
  then show ?thesis by (simp add: a_def)
qed

lemma round_mag_closed:
  assumes "0 < a" "round_mag a = Some r"
  shows "r = 0 \<or> round_mag r = Some r"
proof -
  define n where "n = round_half_even (a / pow2 (expo a))"
  have r: "r = of_int n * pow2 (expo a)" and lt: "r < 2 ^ 1024"
    using assms(2) by (auto simp: round_mag_expo n_def Let_def split: if_splits)
  have "0 \<le> a / pow2 (expo a)" using assms(1) by (intro divide_nonneg_pos) simp_all
  then have n0: "0 \<le> n" unfolding n_def using rhe_lower [of 0] by simp
  have "a < pow2 (fl2 a + 1)" using fl2_bounds [OF assms(1)] by simp
  also have "pow2 (fl2 a + 1) \<le> pow2 (53 + expo a)" by (rule pow2_le) (simp add: expo_def)
  also have "\<dots> = 2 ^ 53 * pow2 (expo a)" using pow2_add [of 53 "expo a"] by (simp add: pow2_def)
  finally have "a / pow2 (expo a) < 2 ^ 53" by (simp add: field_simps)
  then have "a / pow2 (expo a) \<le> of_int (2 ^ 53)" by simp
  then have n53: "n \<le> 2 ^ 53" unfolding n_def by (rule rhe_upper)
  show ?thesis
  proof (cases "n = 0")
    case True
    then show ?thesis by (simp add: r)
  next
    case False
    with n0 have "0 < n" by simp
    then have "round_mag (of_int n * pow2 (expo a)) = Some (of_int n * pow2 (expo a))"
      using n53 lt by (intro round_mag_exact) (simp_all add: r expo_def)
    then show ?thesis by (simp add: r)
  qed
qed

lemma round_mag_up:
  assumes v: "0 < v" "round_mag v = Some v" and x: "0 < x" "x \<le> v"
  shows "\<exists>r. round_mag x = Some r \<and> r \<le> v"
proof -
  have vg: "v = of_int (round_half_even (v / pow2 (expo v))) * pow2 (expo v)" and vlt: "v < 2 ^ 1024"
    using v(2) by (auto simp: round_mag_expo Let_def split: if_splits)
  have "expo x \<le> expo v" using x by (rule expo_mono)
  from grid_coarsen [OF this] vg obtain z where z: "v = of_int z * pow2 (expo x)" by metis
  have "x / pow2 (expo x) \<le> of_int z" using x(2) by (simp add: z field_simps)
  then have "round_half_even (x / pow2 (expo x)) \<le> z" by (rule rhe_upper)
  then have "(of_int (round_half_even (x / pow2 (expo x))) :: rat) \<le> of_int z" by (simp only: of_int_le_iff)
  then have le: "of_int (round_half_even (x / pow2 (expo x))) * pow2 (expo x) \<le> v"
    by (simp add: z)
  with vlt show ?thesis by (simp add: round_mag_expo Let_def)
qed

lemma round_mag_down:
  assumes v: "0 < v" "round_mag v = Some v" and x: "v \<le> x" and r: "round_mag x = Some r"
  shows "v \<le> r"
proof -
  have xpos: "0 < x" using v(1) x by simp
  define n where "n = round_half_even (x / pow2 (expo x))"
  have rg: "r = of_int n * pow2 (expo x)"
    using r by (auto simp: round_mag_expo n_def Let_def split: if_splits)
  have vg: "v = of_int (round_half_even (v / pow2 (expo v))) * pow2 (expo v)"
    using v(2) by (auto simp: round_mag_expo Let_def split: if_splits)
  have ee: "expo v \<le> expo x" using v(1) x by (rule expo_mono)
  show ?thesis
  proof (cases "expo v = expo x")
    case True
    define z where "z = round_half_even (v / pow2 (expo v))"
    have z: "v = of_int z * pow2 (expo x)" using vg True by (simp add: z_def)
    have "of_int z \<le> x / pow2 (expo x)" using x by (simp add: z field_simps)
    then have "z \<le> n" unfolding n_def by (rule rhe_lower)
    then have "(of_int z :: rat) \<le> of_int n" by (simp only: of_int_le_iff)
    then show ?thesis by (simp add: z rg)
  next
    case False
    with ee have lt: "expo v < expo x" by simp
    then have ex: "expo x = fl2 x - 52" and "fl2 v - 52 < fl2 x - 52"
      by (auto simp: expo_def max_def split: if_splits)
    then have fl: "fl2 v + 1 \<le> fl2 x" by simp
    have p: "pow2 (fl2 x) = of_int (2 ^ 52) * pow2 (expo x)"
      unfolding ex using pow2_add [of 52 "fl2 x - 52"] by (simp add: pow2_def)
    have "pow2 (fl2 x) \<le> x" using fl2_bounds [OF xpos] by simp
    then have "of_int (2 ^ 52) \<le> x / pow2 (expo x)" by (simp add: p field_simps)
    then have "2 ^ 52 \<le> n" unfolding n_def by (rule rhe_lower)
    then have "(of_int (2 ^ 52) :: rat) \<le> of_int n" by (simp only: of_int_le_iff)
    then have "pow2 (fl2 x) \<le> r" unfolding p rg by (simp del: of_int_power of_int_numeral)
    moreover have "v < pow2 (fl2 v + 1)" using fl2_bounds [OF v(1)] by simp
    moreover have "pow2 (fl2 v + 1) \<le> pow2 (fl2 x)" using fl by (rule pow2_le)
    ultimately show ?thesis by simp
  qed
qed


lemma round_mag_eval:
  assumes "0 < a" "pow2 k \<le> a" "a < pow2 (k + 1)"
  shows "round_mag a =
     (let e = max (k - 52) (- 1074);
          r = of_int (round_half_even (a / pow2 e)) * pow2 e
      in if 2 ^ 1024 \<le> r then None else Some r)"
  using fl2_unique [OF assms] by (simp add: round_mag_def expo_def)

lemma round64_int_exact:
  assumes "\<bar>m\<bar> \<le> 2 ^ 53"
  shows "round64 (of_int m) = Fin (of_int m)"
proof -
  have big: "(2::rat) ^ 53 < 2 ^ 1024" by (rule power_strict_increasing) simp_all
  have pos: "round_mag (of_int n) = Some (of_int n)" if "0 < n" "n \<le> 2 ^ 53" for n
  proof -
    from that(2) have "(of_int n :: rat) \<le> of_int (2 ^ 53)" by (simp only: of_int_le_iff)
    then have "(of_int n :: rat) < 2 ^ 1024" using big by simp
    then have "round_mag (of_int n * pow2 0) = Some (of_int n * pow2 0)"
      using that by (intro round_mag_exact) (simp_all add: pow2_def)
    then show ?thesis by (simp add: pow2_def)
  qed
  show ?thesis
  proof (cases "m = 0")
    case True
    then show ?thesis by (simp add: round64_def)
  next
    case False
    show ?thesis
    proof (cases "0 < m")
      case True
      with assms pos [of m] show ?thesis by (simp add: round64_def)
    next
      case neg: False
      with False assms pos [of "- m"] show ?thesis by (simp add: round64_def)
    qed
  qed
qed

lemma floor_numeral_div [simp]:
  "\<lfloor>(numeral a :: rat) / numeral b\<rfloor> = numeral a div numeral b"
  using floor_divide_of_int_eq [of "numeral a" "numeral b", where ?'a = rat] by simp

section \<open>Selling more than is owned\<close>

lemma str_int_within_limit:
  "\<bar>i\<bar> < 10 ^ int_max_str_digits \<Longrightarrow> str_int i = Inr (decimal i)"
  by (simp add: str_int_def)

lemma limit_ge_10: "(10::int) \<le> 10 ^ int_max_str_digits"
proof -
  have "(1::nat) \<le> int_max_str_digits" by (simp add: int_max_str_digits_def)
  then have "(10::int) ^ 1 \<le> 10 ^ int_max_str_digits" by (rule power_increasing) simp
  then show ?thesis by (simp only: power_one_right)
qed

lemma str_int_digit: "\<bar>i\<bar> < 10 \<Longrightarrow> str_int i = Inr (decimal i)"
  using limit_ge_10 by (intro str_int_within_limit) linarith

text \<open>
  Within the limit of the int conversion the sale of more than is owned raises
  \<^verbatim>\<open>InsufficientSharesError\<close>, its message naming the requested and the owned quantity,
  and leaves the account as it was. The price table plays no part in the result, so an
  unowned unknown symbol gives \<^verbatim>\<open>InsufficientSharesError\<close>, not \<^verbatim>\<open>UnknownSymbolError\<close>.
\<close>

lemma sell_more_than_owned:
  assumes "0 < q" and "dict_get (holdings self) (upper symbol) 0 < q"
    and "q < 10 ^ int_max_str_digits"
    and "- (10 ^ int_max_str_digits) < dict_get (holdings self) (upper symbol) 0"
  shows "sell_shares prices now self symbol (Num (PyInt q)) =
           (Some (InsufficientSharesError
                    (''Cannot sell '' @ decimal q @ '' shares of '' @ upper symbol @
                     ''. Only '' @ decimal (dict_get (holdings self) (upper symbol) 0) @
                     '' shares are owned.'')), self)"
proof -
  have "\<bar>q\<bar> < 10 ^ int_max_str_digits" using assms(1,3) by simp
  moreover have "\<bar>dict_get (holdings self) (upper symbol) 0\<bar> < 10 ^ int_max_str_digits"
    using assms(2,3,4) by simp
  ultimately show ?thesis
    using assms(1,2)
    by (simp add: sell_shares_def Let_def insufficient_shares_def shares_message_def
        str_int_within_limit)
qed

lemma sell_unowned_unknown_symbol:
  "sell_shares test_prices ''t1'' test_account ''fake'' (Num (PyInt 1)) =
     (Some (InsufficientSharesError ''Cannot sell 1 shares of FAKE. Only 0 shares are owned.''),
      test_account)"
  "get_share_price test_prices ''fake'' =
     Inl (UnknownSymbolError ''No price data found for symbol: fake'')"
proof -
  have o: "dict_get (holdings test_account) k 0 = 0" for k
    by (simp add: test_account_def dict_get_def)
  have m: "decimal 1 = ''1''" "decimal 0 = ''0''" "upper ''fake'' = ''FAKE''"
    by code_simp+
  have l: "(1::int) < 10 ^ int_max_str_digits" "- (10 ^ int_max_str_digits) < (0::int)"
    using limit_ge_10 by linarith+
  show "sell_shares test_prices ''t1'' test_account ''fake'' (Num (PyInt 1)) =
     (Some (InsufficientSharesError ''Cannot sell 1 shares of FAKE. Only 0 shares are owned.''),
      test_account)"
    using sell_more_than_owned [of 1 test_account "''fake''" test_prices "''t1''"] l
    by (simp add: o m)
  show "get_share_price test_prices ''fake'' =
     Inl (UnknownSymbolError ''No price data found for symbol: fake'')"
    by code_simp
qed

text \<open>A quantity that is a \<^verbatim>\<open>bool\<close> passes the guard and is printed as \<^verbatim>\<open>True\<close>.\<close>

lemma sell_bool_quantity:
  "sell_shares test_prices ''t1'' test_account ''AAPL'' (Bool True) =
     (Some (InsufficientSharesError ''Cannot sell True shares of AAPL. Only 0 shares are owned.''),
      test_account)"
proof -
  have o: "dict_get (holdings test_account) k 0 = 0" for k
    by (simp add: test_account_def dict_get_def)
  have u: "upper ''AAPL'' = ''AAPL''" by code_simp
  have "decimal 0 = ''0''" by code_simp
  then have d: "str_int 0 = Inr ''0''" using str_int_digit [of 0] by simp
  show ?thesis
    by (simp add: sell_shares_def Let_def insufficient_shares_def shares_message_def o d)
      (simp add: u)
qed

lemma many_digits_eq: "many_digits = 10 ^ int_max_str_digits"
  by (simp only: many_digits_def int_max_str_digits_def)

lemma many_digits_limit: "0 < many_digits" "10 ^ int_max_str_digits \<le> \<bar>many_digits\<bar>"
proof -
  show p: "0 < many_digits" unfolding many_digits_eq by (rule zero_less_power) simp
  then have "\<bar>many_digits\<bar> = many_digits" by (rule abs_of_pos)
  then show "10 ^ int_max_str_digits \<le> \<bar>many_digits\<bar>"
    by (simp only: many_digits_eq order_refl)
qed

text \<open>
  C6. Selling a quantity greater than the owned quantity must fail with
  \<^verbatim>\<open>InsufficientSharesError\<close>. For a quantity of more than 4300 digits it does not: on the
  account of the test suite, which holds no shares, \<^verbatim>\<open>sell_shares('AAPL', 10**4300)\<close>
  passes the guard on the quantity, finds \<^verbatim>\<open>quantity > shares_owned\<close>, and raises
  \<^verbatim>\<open>ValueError\<close> while the message of the \<^verbatim>\<open>InsufficientSharesError\<close> is being built.
  The account is as it was.
\<close>

theorem sell_too_many_digits:
  "positive_int (Num (PyInt many_digits)) = Some many_digits \<and>
   dict_get (holdings test_account) (upper ''AAPL'') 0 < many_digits \<and>
   sell_shares test_prices ''t1'' test_account ''AAPL'' (Num (PyInt many_digits)) =
     (Some (ValueError digits_message), test_account)"
proof -
  have o: "dict_get (holdings test_account) k 0 = 0" for k
    by (simp add: test_account_def dict_get_def)
  have s: "str_int many_digits = Inl (ValueError digits_message)"
    using many_digits_limit(2) by (simp only: str_int_def if_True)
  show ?thesis
    using many_digits_limit(1)
    by (simp add: sell_shares_def Let_def insufficient_shares_def shares_message_def o s)
qed

section \<open>Properties of float arithmetic\<close>


lemma round64_zero [simp]: "round64 0 = Fin 0"
  by (simp add: round64_def)

lemma round64_neg: "round64 (- x) = fneg (round64 x)"
proof -
  consider "x = 0" | "0 < x" | "x < 0" by linarith
  then show ?thesis
    by cases (simp_all add: round64_def split: option.splits)
qed

lemma round64_pos_cases:
  assumes "0 < x"
  obtains "round64 x = PInf" "round_mag x = None"
  | r where "round64 x = Fin r" "round_mag x = Some r" "0 \<le> r"
  using assms round_mag_nonneg [OF assms]
  by (cases "round_mag x") (auto simp: round64_def)

lemma valid_posD:
  assumes "valid_f64 (Fin v)" "0 < v"
  shows "round_mag v = Some v"
  using assms by (auto simp: valid_f64_def round64_def split: option.splits)

lemma valid_fneg: "valid_f64 x \<Longrightarrow> valid_f64 (fneg x)"
  by (cases x) (simp_all add: valid_f64_def round64_neg)

lemma round64_valid: "valid_f64 (round64 x)"
proof -
  have pos: "valid_f64 (round64 y)" if "0 < y" for y
    using that
  proof (cases y rule: round64_pos_cases)
    case 1
    then show ?thesis by (simp add: valid_f64_def)
  next
    case (2 r)
    from round_mag_closed [OF that 2(2)] show ?thesis
    proof
      assume "r = 0"
      with 2 show ?thesis by (simp add: valid_f64_def)
    next
      assume c: "round_mag r = Some r"
      then have "r \<noteq> 0 \<Longrightarrow> round64 r = Fin r" using 2(3) by (simp add: round64_def)
      then show ?thesis using 2(1) by (cases "r = 0") (simp_all add: valid_f64_def)
    qed
  qed
  consider "x = 0" | "0 < x" | "0 < - x" by linarith
  then show ?thesis
  proof cases
    case 1
    then show ?thesis by (simp add: valid_f64_def)
  next
    case 2
    then show ?thesis by (rule pos)
  next
    case 3
    then have "valid_f64 (fneg (round64 (- x)))" by (intro valid_fneg pos)
    then show ?thesis by (simp add: round64_neg [symmetric])
  qed
qed

lemma fadd_valid: "valid_f64 (fadd x y)"
  by (cases x; cases y) (simp_all add: round64_valid, simp_all add: valid_f64_def)

lemma fsub_valid: "valid_f64 (fsub x y)"
  by (simp add: fsub_def fadd_valid)

lemma fmul_valid: "valid_f64 (fmul x y)"
  by (cases x; cases y) (simp_all add: round64_valid, simp_all add: valid_f64_def)

lemma round64_nonneg:
  assumes "0 \<le> x"
  shows "round64 x = PInf \<or> (\<exists>r. round64 x = Fin r \<and> 0 \<le> r)"
proof (cases "x = 0")
  case True
  then show ?thesis by simp
next
  case False
  with assms have "0 < x" by simp
  then show ?thesis by (cases x rule: round64_pos_cases) auto
qed

lemma round64_nonpos:
  assumes "x \<le> 0"
  shows "round64 x = NInf \<or> (\<exists>r. round64 x = Fin r \<and> r \<le> 0)"
proof -
  from assms have "0 \<le> - x" by simp
  from round64_nonneg [OF this] show ?thesis
    by (cases "round64 x") (auto simp: round64_neg)
qed

lemma round64_up_pos:
  assumes "valid_f64 (Fin v)" "0 < x" "x \<le> v"
  shows "\<exists>r. round64 x = Fin r \<and> r \<le> v"
proof -
  have "0 < v" using assms by simp
  with assms(1) have "round_mag v = Some v" by (rule valid_posD)
  from round_mag_up [OF \<open>0 < v\<close> this assms(2,3)] show ?thesis
    using assms(2) by (auto simp: round64_def)
qed

lemma round64_down_pos:
  assumes "valid_f64 (Fin v)" "0 < v" "v \<le> x"
  shows "round64 x = PInf \<or> (\<exists>r. round64 x = Fin r \<and> v \<le> r)"
proof -
  have x: "0 < x" using assms by simp
  from assms(1,2) have v: "round_mag v = Some v" by (rule valid_posD)
  from x show ?thesis
  proof (cases x rule: round64_pos_cases)
    case 1
    then show ?thesis by simp
  next
    case (2 r)
    from round_mag_down [OF assms(2) v assms(3) 2(2)] 2(1) show ?thesis by simp
  qed
qed

lemma round64_down:
  assumes "valid_f64 (Fin v)" "v \<le> x"
  shows "round64 x = PInf \<or> (\<exists>r. round64 x = Fin r \<and> v \<le> r)"
proof -
  consider "0 < v" | "v \<le> 0" "0 \<le> x" | "x < 0" by linarith
  then show ?thesis
  proof cases
    case 1
    with assms show ?thesis by (intro round64_down_pos)
  next
    case 2
    from round64_nonneg [OF 2(2)] 2(1) show ?thesis by auto
  next
    case 3
    have nv: "valid_f64 (Fin (- v))" using valid_fneg [OF assms(1)] by simp
    have "\<exists>r. round64 (- x) = Fin r \<and> r \<le> - v"
      using nv by (rule round64_up_pos) (use 3 assms(2) in simp_all)
    then show ?thesis by (cases "round64 x") (auto simp: round64_neg)
  qed
qed

lemma round64_up:
  assumes "valid_f64 (Fin v)" "x \<le> v"
  shows "round64 x = NInf \<or> (\<exists>r. round64 x = Fin r \<and> r \<le> v)"
proof -
  have nv: "valid_f64 (Fin (- v))" using valid_fneg [OF assms(1)] by simp
  have "- v \<le> - x" using assms(2) by simp
  from round64_down [OF nv this] show ?thesis
    by (cases "round64 x") (auto simp: round64_neg)
qed

section \<open>The cash balance is never negative\<close>

lemma fadd_not_negative:
  assumes "\<not> flt x (Fin 0)" "\<not> flt y (Fin 0)"
  shows "\<not> flt (fadd x y) (Fin 0)"
proof (cases x)
  case (Fin a)
  show ?thesis
  proof (cases y)
    case (Fin b)
    with \<open>x = Fin a\<close> assms have "0 \<le> a + b" by simp
    from round64_nonneg [OF this] show ?thesis using Fin \<open>x = Fin a\<close> by auto
  qed (use Fin assms in simp_all)
qed (use assms in \<open>cases y; simp\<close>)+

lemma to_float_sign:
  assumes "to_float i = Inr x"
  shows "\<exists>r. x = Fin r \<and> round64 (of_int i) = Fin r \<and> (0 \<le> i \<longrightarrow> 0 \<le> r)"
proof (cases "round64 (of_int i)")
  case (Fin r)
  have "0 \<le> i \<Longrightarrow> 0 \<le> r"
  proof -
    assume "0 \<le> i"
    then have "(0::rat) \<le> of_int i" by simp
    from round64_nonneg [OF this] Fin show ?thesis by simp
  qed
  moreover from Fin assms have "x = Fin r" by (simp add: to_float_def)
  ultimately show ?thesis using Fin by blast
qed (use assms in \<open>simp_all add: to_float_def\<close>)

lemma py_add_not_negative:
  assumes "\<not> py_lt c (PyInt 0)" "\<not> py_lt a (PyInt 0)" "py_add c a = Inr c'"
  shows "\<not> py_lt c' (PyInt 0)"
proof (cases c)
  case ci: (PyInt i)
  show ?thesis
  proof (cases a)
    case (PyInt j)
    with ci assms show ?thesis by (auto simp: py_lt_def)
  next
    case (PyFloat y)
    with ci assms obtain x where x: "to_float i = Inr x" and c': "c' = PyFloat (fadd x y)"
      by (auto split: sum.splits)
    from to_float_sign [OF x] ci assms(1) have "\<not> flt x (Fin 0)" by (auto simp: py_lt_def)
    moreover from PyFloat assms(2) have "\<not> flt y (Fin 0)" by (simp add: py_lt_def)
    ultimately show ?thesis unfolding c' by (simp add: py_lt_def fadd_not_negative)
  qed
next
  case cf: (PyFloat x)
  show ?thesis
  proof (cases a)
    case (PyInt j)
    with cf assms obtain y where y: "to_float j = Inr y" and c': "c' = PyFloat (fadd x y)"
      by (auto split: sum.splits)
    from to_float_sign [OF y] PyInt assms(2) have "\<not> flt y (Fin 0)" by (auto simp: py_lt_def)
    moreover from cf assms(1) have "\<not> flt x (Fin 0)" by (simp add: py_lt_def)
    ultimately show ?thesis unfolding c' by (simp add: py_lt_def fadd_not_negative)
  next
    case (PyFloat y)
    with cf assms show ?thesis by (auto simp: py_lt_def fadd_not_negative)
  qed
qed

lemma py_add_valid: "py_add c a = Inr c' \<Longrightarrow> valid_num c'"
  by (cases c; cases a) (auto simp: fadd_valid split: sum.splits)

lemma py_sub_valid: "py_sub c a = Inr c' \<Longrightarrow> valid_num c'"
  by (cases c; cases a) (auto simp: fsub_valid split: sum.splits)

lemma py_mul_valid: "py_mul c a = Inr c' \<Longrightarrow> valid_num c'"
  by (cases c; cases a) (auto simp: fmul_valid split: sum.splits)

lemma fsub_not_negative:
  assumes "\<not> flt x y"
  shows "\<not> flt (fsub x y) (Fin 0)"
proof (cases x)
  case (Fin a)
  show ?thesis
  proof (cases y)
    case (Fin b)
    with \<open>x = Fin a\<close> assms have "0 \<le> a + - b" by simp
    from round64_nonneg [OF this] show ?thesis using Fin \<open>x = Fin a\<close> by (auto simp: fsub_def)
  qed (use Fin assms in \<open>simp_all add: fsub_def\<close>)
qed (use assms in \<open>cases y; simp add: fsub_def\<close>)+

lemma py_sub_not_negative:
  assumes "valid_num c" "valid_num a" "\<not> py_gt a c" "py_sub c a = Inr c'"
  shows "\<not> py_lt c' (PyInt 0)"
proof (cases c)
  case ci: (PyInt i)
  show ?thesis
  proof (cases a)
    case (PyInt j)
    with ci assms show ?thesis by (auto simp: py_lt_def py_gt_def)
  next
    case (PyFloat y)
    with ci assms obtain x where x: "to_float i = Inr x" and c': "c' = PyFloat (fsub x y)"
      by (auto split: sum.splits)
    from to_float_sign [OF x] obtain r where r: "x = Fin r" "round64 (of_int i) = Fin r" by auto
    have "\<not> flt x y"
    proof (cases y)
      case (Fin b)
      with PyFloat ci assms(3) have "b \<le> of_int i" by (simp add: py_gt_def)
      moreover from Fin PyFloat assms(2) have "valid_f64 (Fin b)" by simp
      ultimately have "round64 (of_int i) = PInf \<or> (\<exists>r. round64 (of_int i) = Fin r \<and> b \<le> r)"
        by (intro round64_down)
      with r Fin show ?thesis by auto
    qed (use PyFloat ci assms(3) r in \<open>simp_all add: py_gt_def\<close>)
    then show ?thesis unfolding c' by (simp add: py_lt_def fsub_not_negative)
  qed
next
  case cf: (PyFloat x)
  show ?thesis
  proof (cases a)
    case (PyInt j)
    with cf assms obtain y where y: "to_float j = Inr y" and c': "c' = PyFloat (fsub x y)"
      by (auto split: sum.splits)
    from to_float_sign [OF y] obtain r where r: "y = Fin r" "round64 (of_int j) = Fin r" by auto
    have "\<not> flt x y"
    proof (cases x)
      case (Fin b)
      with PyInt cf assms(3) have "of_int j \<le> b" by (simp add: py_gt_def)
      moreover from Fin cf assms(1) have "valid_f64 (Fin b)" by simp
      ultimately have "round64 (of_int j) = NInf \<or> (\<exists>r. round64 (of_int j) = Fin r \<and> r \<le> b)"
        by (intro round64_up)
      with r Fin show ?thesis by auto
    qed (use PyInt cf assms(3) r in \<open>simp_all add: py_gt_def\<close>)
    then show ?thesis unfolding c' by (simp add: py_lt_def fsub_not_negative)
  next
    case (PyFloat y)
    with cf assms show ?thesis by (auto simp: py_lt_def py_gt_def fsub_not_negative)
  qed
qed

lemma round64_numeral [simp]:
  "(numeral n :: int) \<le> 2 ^ 53 \<Longrightarrow> round64 (numeral n) = Fin (numeral n)"
  using round64_int_exact [of "numeral n"] by simp

lemma round64_one [simp]: "round64 1 = Fin 1"
  using round64_int_exact [of 1] by simp

lemma record_transaction_fields [simp]:
  "cash_balance (record_transaction now ty sy q p a s) = cash_balance s"
  "total_deposits (record_transaction now ty sy q p a s) = total_deposits s"
  "holdings (record_transaction now ty sy q p a s) = holdings s"
  "account_id (record_transaction now ty sy q p a s) = account_id s"
  "user_name (record_transaction now ty sy q p a s) = user_name s"
  by (simp_all add: record_transaction_def)

lemma positive_intD: "positive_int v = Some q \<Longrightarrow> num_of v = Some (PyInt q) \<and> 0 < q"
  by (cases v rule: positive_int.cases) (auto split: if_splits)

lemma valid_num_of: "valid_val v \<Longrightarrow> num_of v = Some a \<Longrightarrow> valid_num a"
  by (cases v) auto

lemma get_share_price_positive:
  assumes "positive_prices prices" "get_share_price prices symbol = Inr p"
  shows "flt (Fin 0) p"
proof -
  from assms(2) have "map_of prices (upper symbol) = Some p"
    by (auto simp: get_share_price_def Let_def split: option.splits)
  then have "(upper symbol, p) \<in> set prices" by (rule map_of_SomeD)
  with assms(1) show ?thesis by (auto simp: positive_prices_def list_all_iff)
qed

lemma fmul_not_negative:
  assumes "flt (Fin 0) p" "0 \<le> r"
  shows "\<not> flt (fmul p (Fin r)) (Fin 0)"
proof (cases p)
  case (Fin a)
  with assms have "0 \<le> a * r" by simp
  from round64_nonneg [OF this] Fin show ?thesis by auto
next
  case PInf
  then show ?thesis using assms(2) by (cases "r = 0") (simp_all add: sgn_if)
qed (use assms in simp_all)

lemma proceeds_not_negative:
  assumes "flt (Fin 0) p" "0 < q" "py_mul (PyFloat p) (PyInt q) = Inr v"
  shows "\<not> py_lt v (PyInt 0)"
proof -
  from assms(3) obtain y where y: "to_float q = Inr y" and v: "v = PyFloat (fmul p y)"
    by (auto split: sum.splits)
  from to_float_sign [OF y] assms(2) obtain r where "y = Fin r" "0 \<le> r" by auto
  with assms(1) show ?thesis unfolding v by (simp add: py_lt_def fmul_not_negative)
qed

lemma construct_cash:
  assumes "valid_val d" "construct now aid uname d = Inr s"
  shows "\<not> py_lt (cash_balance s) (PyInt 0) \<and> valid_num (cash_balance s)"
  using assms by (cases d) (auto simp: construct_def Let_def split: if_splits)

lemma deposit_cash:
  assumes "\<not> py_lt (cash_balance s) (PyInt 0) \<and> valid_num (cash_balance s)"
    and "deposit now s amount = (r, s')"
  shows "\<not> py_lt (cash_balance s') (PyInt 0) \<and> valid_num (cash_balance s')"
proof (cases "num_of amount")
  case None
  with assms show ?thesis by (auto simp: deposit_def)
next
  case (Some a)
  show ?thesis
  proof (cases "py_le a (PyInt 0)")
    case True
    with Some assms show ?thesis by (auto simp: deposit_def)
  next
    case False
    then have a: "\<not> py_lt a (PyInt 0)" by (simp add: py_le_def)
    show ?thesis
    proof (cases "py_add (cash_balance s) a")
      case (Inl e)
      with Some False assms show ?thesis by (auto simp: deposit_def)
    next
      case (Inr c)
      from py_add_not_negative [OF _ a Inr] py_add_valid [OF Inr] assms(1)
      have "\<not> py_lt c (PyInt 0) \<and> valid_num c" by simp
      with Some False Inr assms(2) show ?thesis
        by (auto simp: deposit_def Let_def split: sum.splits)
    qed
  qed
qed

lemma withdraw_cash:
  assumes "\<not> py_lt (cash_balance s) (PyInt 0) \<and> valid_num (cash_balance s)"
    and "valid_val amount" and "withdraw now s amount = (r, s')"
  shows "\<not> py_lt (cash_balance s') (PyInt 0) \<and> valid_num (cash_balance s')"
proof (cases "num_of amount")
  case None
  with assms show ?thesis by (auto simp: withdraw_def)
next
  case (Some a)
  show ?thesis
  proof (cases "py_le a (PyInt 0) \<or> py_gt a (cash_balance s)")
    case True
    with Some assms show ?thesis by (auto simp: withdraw_def split: if_splits)
  next
    case False
    show ?thesis
    proof (cases "py_sub (cash_balance s) a")
      case (Inl e)
      with Some False assms show ?thesis by (auto simp: withdraw_def)
    next
      case (Inr c)
      from assms(1) valid_num_of [OF assms(2) Some] False have "\<not> py_lt c (PyInt 0)"
        by (intro py_sub_not_negative [OF _ _ _ Inr]) simp_all
      with py_sub_valid [OF Inr] Some False Inr assms(3) show ?thesis
        by (auto simp: withdraw_def)
    qed
  qed
qed

lemma buy_cash:
  assumes "\<not> py_lt (cash_balance s) (PyInt 0) \<and> valid_num (cash_balance s)"
    and "buy_shares prices now s symbol quantity = (r, s')"
  shows "\<not> py_lt (cash_balance s') (PyInt 0) \<and> valid_num (cash_balance s')"
proof (cases "\<exists>q price cost c. positive_int quantity = Some q \<and>
    get_share_price prices symbol = Inr price \<and>
    py_mul (PyFloat price) (PyInt q) = Inr cost \<and> \<not> py_gt cost (cash_balance s) \<and>
    py_sub (cash_balance s) cost = Inr c")
  case True
  then obtain q price cost c where h: "positive_int quantity = Some q"
    "get_share_price prices symbol = Inr price"
    "py_mul (PyFloat price) (PyInt q) = Inr cost" "\<not> py_gt cost (cash_balance s)"
    "py_sub (cash_balance s) cost = Inr c" by blast
  from assms(1) py_mul_valid [OF h(3)] h(4) have "\<not> py_lt c (PyInt 0)"
    by (intro py_sub_not_negative [OF _ _ _ h(5)]) simp_all
  moreover have "cash_balance s' = c" using assms(2) h
    by (auto simp: buy_shares_def Let_def simp del: py_mul.simps)
  ultimately show ?thesis using py_sub_valid [OF h(5)] by simp
next
  case False
  then have "s' = s" using assms(2)
    by (auto simp: buy_shares_def Let_def simp del: py_mul.simps
        split: option.splits sum.splits if_splits)
  with assms(1) show ?thesis by simp
qed

lemma sell_cash:
  assumes "\<not> py_lt (cash_balance s) (PyInt 0) \<and> valid_num (cash_balance s)"
    and "positive_prices prices"
    and "sell_shares prices now s symbol quantity = (r, s')"
  shows "\<not> py_lt (cash_balance s') (PyInt 0) \<and> valid_num (cash_balance s')"
proof (cases "\<exists>q price v c. positive_int quantity = Some q \<and>
    \<not> dict_get (holdings s) (upper symbol) 0 < q \<and>
    get_share_price prices symbol = Inr price \<and>
    py_mul (PyFloat price) (PyInt q) = Inr v \<and>
    py_add (cash_balance s) v = Inr c")
  case True
  then obtain q price v c where h: "positive_int quantity = Some q"
    "\<not> dict_get (holdings s) (upper symbol) 0 < q"
    "get_share_price prices symbol = Inr price"
    "py_mul (PyFloat price) (PyInt q) = Inr v"
    "py_add (cash_balance s) v = Inr c" by blast
  from positive_intD [OF h(1)] have q: "0 < q" by simp
  from get_share_price_positive [OF assms(2) h(3)] q h(4) have "\<not> py_lt v (PyInt 0)"
    by (rule proceeds_not_negative)
  with assms(1) h(5) have "\<not> py_lt c (PyInt 0)" by (intro py_add_not_negative [OF _ _ h(5)]) simp_all
  moreover have "cash_balance s' = c" using assms(3) h
    by (auto simp: sell_shares_def Let_def simp del: py_mul.simps split: option.splits)
  ultimately show ?thesis using py_add_valid [OF h(5)] by simp
next
  case False
  then have "s' = s" using assms(3)
    by (auto simp: sell_shares_def Let_def simp del: py_mul.simps
        split: option.splits sum.splits if_splits)
  with assms(1) show ?thesis by simp
qed

lemma reachable_cash:
  "reachable s \<Longrightarrow> \<not> py_lt (cash_balance s) (PyInt 0) \<and> valid_num (cash_balance s)"
proof (induction rule: reachable.induct)
  case (reachable_init d now aid uname s)
  then show ?case by (rule construct_cash)
next
  case (reachable_step s prices x now r s')
  note ih = reachable_step.IH
  show ?case
  proof (cases x)
    case (Deposit amount)
    with reachable_step.hyps have "deposit now s amount = (r, s')" by simp
    from deposit_cash [OF ih this] show ?thesis .
  next
    case (Withdraw amount)
    with reachable_step.hyps have "valid_val amount" "withdraw now s amount = (r, s')"
      by simp_all
    from withdraw_cash [OF ih this] show ?thesis .
  next
    case (Buy symbol quantity)
    with reachable_step.hyps have "buy_shares prices now s symbol quantity = (r, s')" by simp
    from buy_cash [OF ih this] show ?thesis .
  next
    case (Sell symbol quantity)
    with reachable_step.hyps have "sell_shares prices now s symbol quantity = (r, s')" by simp
    from sell_cash [OF ih reachable_step.hyps(2) this] show ?thesis .
  qed
qed


lemma construct_new_account:
  "construct now ''acc123'' ''Test User'' (Num (PyFloat (Fin 0))) = Inr new_account"
  by (simp add: construct_def new_account_def py_lt_def py_gt_def)

lemma construct_test_account:
  "construct ''t0'' ''acc123'' ''Test User'' (Num (PyFloat (Fin 10000))) = Inr test_account"
  by (simp add: construct_def test_account_def py_lt_def py_gt_def record_transaction_def)

lemma reachable_new_account: "reachable new_account"
  by (rule reachable_init [OF _ construct_new_account]) (simp add: valid_f64_def)

lemma reachable_test_account: "reachable test_account"
  by (rule reachable_init [OF _ construct_test_account]) (simp add: valid_f64_def)

lemma deposit_inf:
  "deposit ''t1'' new_account (Num (PyFloat PInf)) =
     (None, record_transaction ''t1'' ''DEPOSIT'' None None None (PyFloat PInf)
              (new_account\<lparr>cash_balance := PyFloat PInf, total_deposits := PyFloat PInf\<rparr>))"
  by (simp add: deposit_def new_account_def py_le_def py_lt_def py_eq_def)

lemma nan_account_cash: "cash_balance nan_account = PyFloat NaN"
  by (simp add: nan_account_def deposit_inf withdraw_def py_le_def py_lt_def py_eq_def
      py_gt_def fsub_def)

lemma reachable_nan_account: "reachable nan_account"
proof -
  have 1: "reachable (snd (deposit ''t1'' new_account (Num (PyFloat PInf))))"
    by (rule reachable_step [OF reachable_new_account, where prices = test_prices
          and x = "Deposit (Num (PyFloat PInf))" and now = "''t1''"])
      (simp_all add: positive_prices_def test_prices_def valid_f64_def prod_eq_iff)
  show ?thesis unfolding nan_account_def
    by (rule reachable_step [OF 1, where prices = test_prices
          and x = "Withdraw (Num (PyFloat PInf))" and now = "''t2''"])
      (simp_all add: positive_prices_def test_prices_def valid_f64_def prod_eq_iff)
qed




section \<open>Holdings\<close>

lemma upper_char_idem: "upper_char (upper_char c) = upper_char c"
proof -
  have "((of_char c :: nat) - 32) mod 256 \<le> of_char c - 32" by (rule mod_less_eq_dividend)
  then show ?thesis by (auto simp: upper_char_def Let_def)
qed

lemma upper_idem: "upper (upper s) = upper s"
  by (simp add: upper_def upper_char_idem)

lemma map_of_dict_set: "map_of (dict_set d k v) = (map_of d)(k \<mapsto> v)"
  by (induction d k v rule: dict_set.induct) auto

lemma set_dict_set: "set (dict_set d k v) \<subseteq> insert (k, v) (set d)"
  by (induction d k v rule: dict_set.induct) auto

lemma in_dict_setD: "(a, b) \<in> set (dict_set d k v) \<Longrightarrow> a = k \<and> b = v \<or> (a, b) \<in> set d"
  using set_dict_set [of d k v] by auto

lemma keys_dict_set:
  "map fst (dict_set d k v) = (if k \<in> fst ` set d then map fst d else map fst d @ [k])"
  by (induction d k v rule: dict_set.induct) (auto simp: image_iff)

lemma distinct_dict_set: "distinct (map fst d) \<Longrightarrow> distinct (map fst (dict_set d k v))"
  by (simp add: keys_dict_set)

lemma map_of_dict_del: "map_of (dict_del d k) k = None"
  by (induction d) (auto simp: dict_del_def)

lemma set_dict_del: "set (dict_del d k) \<subseteq> set d"
  by (auto simp: dict_del_def)

lemma distinct_dict_del: "distinct (map fst d) \<Longrightarrow> distinct (map fst (dict_del d k))"
  by (simp add: dict_del_def distinct_map_filter)

lemma dict_get_dict_set [simp]: "dict_get (dict_set d k v) k dflt = v"
  by (simp add: dict_get_def map_of_dict_set)

text \<open>The invariant of \<open>holdings\<close>: distinct upper-case keys, positive quantities.\<close>

lemma dict_get_nonneg:
  assumes "\<forall>(k, q) \<in> set d. upper k = k \<and> 0 < q"
  shows "0 \<le> dict_get d k 0"
proof (cases "map_of d k")
  case None
  then show ?thesis by (simp add: dict_get_def)
next
  case (Some v)
  then have "(k, v) \<in> set d" by (rule map_of_SomeD)
  with assms Some show ?thesis by (auto simp: dict_get_def)
qed

lemma buy_holdings:
  assumes inv: "distinct (map fst (holdings s)) \<and> (\<forall>(k, q) \<in> set (holdings s). upper k = k \<and> 0 < q)"
    and "buy_shares prices now s symbol quantity = (r, s')"
  shows "distinct (map fst (holdings s')) \<and> (\<forall>(k, q) \<in> set (holdings s'). upper k = k \<and> 0 < q)"
proof (cases "r = None")
  case True
  with assms(2) obtain q where q: "positive_int quantity = Some q"
    and h: "holdings s' = dict_set (holdings s) (upper symbol)
              (dict_get (holdings s) (upper symbol) 0 + q)"
    by (auto simp: buy_shares_def Let_def simp del: py_mul.simps
        split: option.splits sum.splits if_splits)
  from positive_intD [OF q] have "0 < q" by simp
  with dict_get_nonneg [of "holdings s" "upper symbol"] inv
  have pos: "0 < dict_get (holdings s) (upper symbol) 0 + q" by simp
  show ?thesis unfolding h
    using inv pos by (auto simp: distinct_dict_set upper_idem dest!: in_dict_setD)
next
  case False
  with assms(2) have "s' = s"
    by (auto simp: buy_shares_def Let_def simp del: py_mul.simps
        split: option.splits sum.splits if_splits)
  with inv show ?thesis by simp
qed

lemma sell_shares_cases:
  assumes "sell_shares prices now s symbol quantity = (r, s')"
  obtains (failed) "s' = s" "r \<noteq> None"
  | (sold) q v price total_value c where "r = None" "positive_int quantity = Some q"
      "map_of (holdings s) (upper symbol) = Some v" "q \<le> v"
      "get_share_price prices symbol = Inr price"
      "py_mul (PyFloat price) (PyInt q) = Inr total_value"
      "py_add (cash_balance s) total_value = Inr c"
      "s' = record_transaction now ''SELL'' (Some symbol) (Some q) (Some price) total_value
              (s\<lparr>cash_balance := c,
                 holdings := (if v - q = 0
                              then dict_del (dict_set (holdings s) (upper symbol) (v - q)) (upper symbol)
                              else dict_set (holdings s) (upper symbol) (v - q))\<rparr>)"
proof (cases "positive_int quantity")
  case None
  with assms show ?thesis by (intro failed) (auto simp: sell_shares_def)
next
  case (Some q)
  from positive_intD [OF Some] have q: "0 < q" by simp
  show ?thesis
  proof (cases "dict_get (holdings s) (upper symbol) 0 < q")
    case True
    with Some assms show ?thesis by (intro failed) (auto simp: sell_shares_def Let_def)
  next
    case False
    with q obtain v where v: "map_of (holdings s) (upper symbol) = Some v" "q \<le> v"
      by (cases "map_of (holdings s) (upper symbol)") (auto simp: dict_get_def)
    show ?thesis
    proof (cases "get_share_price prices symbol")
      case (Inl e)
      with Some False assms show ?thesis by (intro failed) (auto simp: sell_shares_def Let_def)
    next
      case price: (Inr price)
      show ?thesis
      proof (cases "py_mul (PyFloat price) (PyInt q)")
        case (Inl e)
        with Some False price assms show ?thesis
          by (intro failed) (auto simp: sell_shares_def Let_def simp del: py_mul.simps)
      next
        case tv: (Inr total_value)
        show ?thesis
        proof (cases "py_add (cash_balance s) total_value")
          case (Inl e)
          with Some False price tv assms show ?thesis
            by (intro failed) (auto simp: sell_shares_def Let_def simp del: py_mul.simps)
        next
          case (Inr c)
          with Some False price tv v assms show ?thesis
            by (intro sold [of q v price total_value c])
              (auto simp: sell_shares_def Let_def simp del: py_mul.simps)
        qed
      qed
    qed
  qed
qed

lemma sell_holdings:
  assumes inv: "distinct (map fst (holdings s)) \<and> (\<forall>(k, q) \<in> set (holdings s). upper k = k \<and> 0 < q)"
    and "sell_shares prices now s symbol quantity = (r, s')"
  shows "distinct (map fst (holdings s')) \<and> (\<forall>(k, q) \<in> set (holdings s'). upper k = k \<and> 0 < q)"
  using assms(2)
proof (cases rule: sell_shares_cases)
  case failed
  with inv show ?thesis by simp
next
  case (sold q v price total_value c)
  show ?thesis
  proof (cases "v - q = 0")
    case True
    have "set (dict_del (dict_set (holdings s) (upper symbol) (v - q)) (upper symbol)) \<subseteq> set (holdings s)"
      using set_dict_set [of "holdings s" "upper symbol" "v - q"]
      by (auto simp: dict_del_def)
    with True inv show ?thesis unfolding sold(8)
      by (auto simp: distinct_dict_del distinct_dict_set)
  next
    case False
    with sold(4) have "0 < v - q" by simp
    with False inv show ?thesis unfolding sold(8)
      by (auto simp: distinct_dict_set upper_idem dest!: in_dict_setD)
  qed
qed

lemma deposit_holdings: "deposit now s amount = (r, s') \<Longrightarrow> holdings s' = holdings s"
  by (auto simp: deposit_def Let_def split: option.splits sum.splits if_splits)

lemma withdraw_holdings: "withdraw now s amount = (r, s') \<Longrightarrow> holdings s' = holdings s"
  by (auto simp: withdraw_def Let_def split: option.splits sum.splits if_splits)

lemma construct_holdings: "construct now aid uname d = Inr s \<Longrightarrow> holdings s = []"
  by (auto simp: construct_def Let_def split: option.splits if_splits)

lemma reachable_holdings:
  "reachable s \<Longrightarrow>
     distinct (map fst (holdings s)) \<and> (\<forall>(k, q) \<in> set (holdings s). upper k = k \<and> 0 < q)"
proof (induction rule: reachable.induct)
  case (reachable_init d now aid uname s)
  then show ?case by (simp add: construct_holdings)
next
  case (reachable_step s prices x now r s')
  note ih = reachable_step.IH
  show ?case
  proof (cases x)
    case (Deposit amount)
    with reachable_step.hyps have "deposit now s amount = (r, s')" by simp
    from deposit_holdings [OF this] ih show ?thesis by simp
  next
    case (Withdraw amount)
    with reachable_step.hyps have "withdraw now s amount = (r, s')" by simp
    from withdraw_holdings [OF this] ih show ?thesis by simp
  next
    case (Buy symbol quantity)
    with reachable_step.hyps have "buy_shares prices now s symbol quantity = (r, s')" by simp
    from buy_holdings [OF ih this] show ?thesis .
  next
    case (Sell symbol quantity)
    with reachable_step.hyps have "sell_shares prices now s symbol quantity = (r, s')" by simp
    from sell_holdings [OF ih this] show ?thesis .
  qed
qed

lemma sell_all_removes_key:
  assumes "sell_shares prices now s symbol (Num (PyInt (dict_get (holdings s) (upper symbol) 0))) = (None, s')"
  shows "map_of (holdings s') (upper symbol) = None"
  using assms
proof (cases rule: sell_shares_cases)
  case (sold q v price total_value c)
  from positive_intD [OF sold(2)] sold(3) have "v - q = 0" by (simp add: dict_get_def)
  then show ?thesis unfolding sold(8) by (simp add: map_of_dict_del)
qed simp


lemma upper_AAPL: "upper ''AAPL'' = ''AAPL''" "upper ''aapl'' = ''AAPL''"
  by code_simp+

lemma price_AAPL:
  "get_share_price test_prices ''AAPL'' = Inr (Fin 150)"
  "get_share_price test_prices ''aapl'' = Inr (Fin 150)"
  by code_simp+

lemma aapl5_account_eq:
  "buy_shares test_prices ''t1'' test_account ''AAPL'' (Num (PyInt 5)) = (None, aapl5_account)"
  "cash_balance aapl5_account = PyFloat (Fin 9250)"
  "holdings aapl5_account = [(''AAPL'', 5)]"
  by (simp_all add: aapl5_account_def buy_shares_def test_account_def Let_def price_AAPL
      upper_AAPL to_float_def py_gt_def fsub_def dict_get_def)

lemma positive_test_prices: "positive_prices test_prices"
  by (simp add: positive_prices_def test_prices_def)

lemma reachable_aapl5_account: "reachable aapl5_account"
  by (rule reachable_step [OF reachable_test_account positive_test_prices,
        where x = "Buy ''AAPL'' (Num (PyInt 5))" and now = "''t1''" and r = None])
    (simp_all add: aapl5_account_eq)

lemma sell_all_aapl5:
  "fst (sell_shares test_prices ''t2'' aapl5_account ''aapl'' (Num (PyInt 5))) = None"
  "holdings (snd (sell_shares test_prices ''t2'' aapl5_account ''aapl'' (Num (PyInt 5)))) = []"
  by (simp_all add: sell_shares_def Let_def aapl5_account_eq price_AAPL upper_AAPL to_float_def
      dict_get_def dict_del_def)

text \<open>
  C3. In every reachable state each entry of \<open>holdings\<close> has an upper-case key (a fixed
  point of \<^verbatim>\<open>upper()\<close>) and a strictly positive quantity, and a sale of the whole owned
  quantity of a symbol that returns leaves no entry under its key.
\<close>

theorem holdings_positive:
  assumes "reachable s"
  shows "(\<forall>(k, q) \<in> set (holdings s). upper k = k \<and> 0 < q) \<and>
         (\<forall>prices now symbol s'.
            sell_shares prices now s symbol
              (Num (PyInt (dict_get (holdings s) (upper symbol) 0))) = (None, s') \<longrightarrow>
            map_of (holdings s') (upper symbol) = None \<and>
            (\<forall>(k, q) \<in> set (holdings s'). upper k = k \<and> 0 < q))"
proof -
  from reachable_holdings [OF assms]
  have inv: "distinct (map fst (holdings s)) \<and> (\<forall>(k, q) \<in> set (holdings s). upper k = k \<and> 0 < q)" .
  have "map_of (holdings s') (upper symbol) = None \<and>
        (\<forall>(k, q) \<in> set (holdings s'). upper k = k \<and> 0 < q)"
    if "sell_shares prices now s symbol
          (Num (PyInt (dict_get (holdings s) (upper symbol) 0))) = (None, s')"
    for prices now symbol s'
    using sell_all_removes_key [OF that] sell_holdings [OF inv that] by simp
  with inv show ?thesis by blast
qed

theorem holdings_positive_witness:
  "reachable aapl5_account \<and> holdings aapl5_account = [(''AAPL'', 5)] \<and>
   sell_shares test_prices ''t2'' aapl5_account ''aapl''
     (Num (PyInt (dict_get (holdings aapl5_account) (upper ''aapl'') 0))) =
     (None, snd (sell_shares test_prices ''t2'' aapl5_account ''aapl'' (Num (PyInt 5)))) \<and>
   map_of (holdings (snd (sell_shares test_prices ''t2'' aapl5_account ''aapl'' (Num (PyInt 5)))))
     (upper ''aapl'') = None \<and>
   upper ''AAPL'' = ''AAPL'' \<and> (0::int) < 5"
proof -
  have q: "dict_get (holdings aapl5_account) (upper ''aapl'') 0 = 5"
    by (simp add: aapl5_account_eq upper_AAPL dict_get_def)
  have e: "sell_shares test_prices ''t2'' aapl5_account ''aapl''
     (Num (PyInt (dict_get (holdings aapl5_account) (upper ''aapl'') 0))) =
     (None, snd (sell_shares test_prices ''t2'' aapl5_account ''aapl'' (Num (PyInt 5))))"
    unfolding q using sell_all_aapl5(1) by (simp add: prod_eq_iff)
  from holdings_positive [OF reachable_aapl5_account] e
  show ?thesis by (simp add: reachable_aapl5_account aapl5_account_eq(3))
qed

section \<open>Which amounts are rejected\<close>

lemma to_float_error: "to_float i = Inl e \<Longrightarrow> e = OverflowError"
  by (auto simp: to_float_def split: f64.splits)

lemma py_add_error: "py_add a b = Inl e \<Longrightarrow> e = OverflowError"
  by (cases a; cases b) (auto split: sum.splits dest: to_float_error)

lemma py_sub_error: "py_sub a b = Inl e \<Longrightarrow> e = OverflowError"
  by (cases a; cases b) (auto split: sum.splits dest: to_float_error)

lemma py_mul_error: "py_mul a b = Inl e \<Longrightarrow> e = OverflowError"
  by (cases a; cases b) (auto split: sum.splits dest: to_float_error)

lemma insufficient_funds_not_ValueError: "insufficient_funds a b \<noteq> ValueError m"
  by (auto simp: insufficient_funds_def fmt_2f_def split: sum.splits pynum.splits
      dest: to_float_error)

lemma deposit_ValueError_iff:
  "(\<exists>m. fst (deposit now s amount) = Some (ValueError m)) = rejected_amount amount"
  by (cases amount)
    (auto simp: deposit_def Let_def split: sum.splits dest: py_add_error)

lemma withdraw_ValueError_iff:
  "(\<exists>m. fst (withdraw now s amount) = Some (ValueError m)) = rejected_amount amount"
  by (cases amount)
    (auto simp: withdraw_def Let_def insufficient_funds_not_ValueError
      split: sum.splits dest: py_sub_error)

lemma rejected_unchanged:
  "rejected_amount amount \<Longrightarrow> snd (deposit now s amount) = s \<and> snd (withdraw now s amount) = s"
  by (cases amount) (auto simp: deposit_def withdraw_def)




section \<open>Profit and loss\<close>

lemma round64_neg_numeral [simp]:
  "(numeral n :: int) \<le> 2 ^ 53 \<Longrightarrow> round64 (- numeral n) = Fin (- numeral n)"
  by (simp add: round64_neg)

lemma aapl10_account_eq:
  "buy_shares test_prices ''t1'' test_account ''AAPL'' (Num (PyInt 10)) = (None, aapl10_account)"
  "cash_balance aapl10_account = PyFloat (Fin 8500)"
  "total_deposits aapl10_account = PyFloat (Fin 10000)"
  "holdings aapl10_account = [(''AAPL'', 10)]"
  by (simp_all add: aapl10_account_def buy_shares_def test_account_def Let_def price_AAPL
      upper_AAPL to_float_def py_gt_def fsub_def dict_get_def)

lemma raised_price_AAPL: "get_share_price raised_prices ''AAPL'' = Inr (Fin 160)"
  by code_simp

lemma profit_loss_after_rise:
  "get_profit_loss raised_prices aapl10_account = Inr (PyFloat (Fin 100))"
  by (simp add: get_profit_loss_def get_total_value_def get_portfolio_value_def
      get_cash_balance_def aapl10_account_eq raised_price_AAPL to_float_def fsub_def)

text \<open>
  C9, as stated: after \<^verbatim>\<open>Account(.., 10000.0)\<close> and \<^verbatim>\<open>buy_shares('AAPL', 10)\<close> at 150 the
  cash is 8500, and with the price at 160 \<^verbatim>\<open>get_profit_loss()\<close> is said to return -400.
  It does not.
\<close>

theorem profit_loss_not_minus_400:
  "cash_balance aapl10_account = PyFloat (Fin 8500) \<and>
   get_profit_loss raised_prices aapl10_account \<noteq> Inr (PyFloat (Fin (- 400)))"
  by (simp add: profit_loss_after_rise aapl10_account_eq)

text \<open>
  C9, amended: in that scenario \<^verbatim>\<open>get_profit_loss()\<close> returns
  (8500 + 10 * 160) - 10000 = 100.0.
\<close>

theorem profit_loss_is_100:
  "fst (buy_shares test_prices ''t1'' test_account ''AAPL'' (Num (PyInt 10))) = None \<and>
   cash_balance aapl10_account = PyFloat (Fin 8500) \<and>
   get_profit_loss raised_prices aapl10_account = Inr (PyFloat (Fin 100))"
  by (simp add: profit_loss_after_rise aapl10_account_eq)

lemma withdraw_total_deposits:
  "withdraw now s amount = (r, s') \<Longrightarrow> total_deposits s' = total_deposits s"
  by (auto simp: withdraw_def split: option.splits sum.splits if_splits)

lemma withdraw_500:
  "withdraw ''t2'' aapl10_account (Num (PyInt 500)) =
     (None, record_transaction ''t2'' ''WITHDRAW'' None None None (PyInt 500)
              (aapl10_account\<lparr>cash_balance := PyFloat (Fin 8000)\<rparr>))"
  by (simp add: withdraw_def aapl10_account_eq py_le_def py_lt_def py_eq_def py_gt_def
      to_float_def fsub_def)

text \<open>
  C5. A withdrawal leaves \<^verbatim>\<open>_total_deposits\<close> as it was, but it changes what
  \<^verbatim>\<open>get_profit_loss()\<close> returns: on the account of the test suite after
  \<^verbatim>\<open>buy_shares('AAPL', 10)\<close> the profit is 0.0, and after \<^verbatim>\<open>withdraw(500)\<close> it is -500.0.
\<close>

theorem withdraw_changes_profit_loss:
  "get_profit_loss test_prices aapl10_account = Inr (PyFloat (Fin 0)) \<and>
   fst (withdraw ''t2'' aapl10_account (Num (PyInt 500))) = None \<and>
   total_deposits (snd (withdraw ''t2'' aapl10_account (Num (PyInt 500)))) =
     total_deposits aapl10_account \<and>
   get_profit_loss test_prices (snd (withdraw ''t2'' aapl10_account (Num (PyInt 500)))) =
     Inr (PyFloat (Fin (- 500)))"
  by (simp add: withdraw_500 get_profit_loss_def get_total_value_def get_portfolio_value_def
      get_cash_balance_def aapl10_account_eq price_AAPL to_float_def fsub_def)

section \<open>All or nothing\<close>

lemma deposit_all_or_nothing:
  assumes "deposit now s amount = (r, s')"
  shows "(r = None \<longrightarrow> (\<exists>tx. transactions s' = transactions s @ [tx])) \<and>
         (r \<noteq> None \<and> r \<noteq> Some OverflowError \<longrightarrow> s' = s)"
  using assms
  by (cases amount)
    (auto simp: deposit_def Let_def record_transaction_def
      split: sum.splits if_splits dest: py_add_error)

lemma withdraw_all_or_nothing:
  assumes "withdraw now s amount = (r, s')"
  shows "(r = None \<longrightarrow> (\<exists>tx. transactions s' = transactions s @ [tx])) \<and>
         (r \<noteq> None \<longrightarrow> s' = s)"
  using assms
  by (cases amount)
    (auto simp: withdraw_def record_transaction_def split: sum.splits if_splits)

lemma buy_all_or_nothing:
  assumes "buy_shares prices now s symbol quantity = (r, s')"
  shows "(r = None \<longrightarrow> (\<exists>tx. transactions s' = transactions s @ [tx])) \<and>
         (r \<noteq> None \<longrightarrow> s' = s)"
  using assms
  by (auto simp: buy_shares_def Let_def record_transaction_def simp del: py_mul.simps
      split: option.splits sum.splits if_splits)

lemma sell_all_or_nothing:
  assumes "sell_shares prices now s symbol quantity = (r, s')"
  shows "(r = None \<longrightarrow> (\<exists>tx. transactions s' = transactions s @ [tx])) \<and>
         (r \<noteq> None \<longrightarrow> s' = s)"
  using assms
proof (cases rule: sell_shares_cases)
  case failed
  then show ?thesis by simp
next
  case (sold q v price total_value c)
  then show ?thesis by (simp add: record_transaction_def)
qed

text \<open>
  Every call that returns appends exactly one transaction, and every call that raises
  leaves the account untouched, with one exception: a deposit that raises
  \<^verbatim>\<open>OverflowError\<close>.
\<close>

lemma step_all_or_nothing:
  assumes "step prices now s x = (r, s')"
  shows "(r = None \<longrightarrow> (\<exists>tx. transactions s' = transactions s @ [tx])) \<and>
         (r \<noteq> None \<and> \<not> (r = Some OverflowError \<and> (\<exists>amount. x = Deposit amount)) \<longrightarrow> s' = s)"
proof (cases x)
  case (Deposit amount)
  with assms deposit_all_or_nothing [of now s amount r s'] show ?thesis by auto
next
  case (Withdraw amount)
  with assms withdraw_all_or_nothing [of now s amount r s'] show ?thesis by auto
next
  case (Buy symbol quantity)
  with assms buy_all_or_nothing [of prices now s symbol quantity r s'] show ?thesis by auto
next
  case (Sell symbol quantity)
  with assms sell_all_or_nothing [of prices now s symbol quantity r s'] show ?thesis by auto
qed

lemma huge_pos: "0 < huge"
  by (simp add: huge_def)

lemma to_float_huge: "to_float huge = Inl OverflowError"
proof -
  have "round_mag (2 ^ 1024) = None"
    by (subst round_mag_eval [where k = 1024]) (simp_all add: pow2_def round_half_even_def Let_def)
  then show ?thesis by (simp add: to_float_def round64_def huge_def)
qed

lemma to_float_0: "to_float 0 = Inr (Fin 0)"
  by (simp add: to_float_def)

lemma round64_3_2: "round64 (3 / 2) = Fin (3 / 2)"
proof -
  have "round_mag (of_int 3 * pow2 (- 1)) = Some (of_int 3 * pow2 (- 1))"
    by (rule round_mag_exact) (simp_all add: pow2_def)
  then show ?thesis by (simp add: round64_def pow2_def)
qed

lemma construct_int_account:
  "construct now ''acc123'' ''Test User'' (Num (PyInt 0)) = Inr int_account"
  by (simp add: construct_def int_account_def py_lt_def py_gt_def)

lemma big_account_eq:
  "cash_balance big_account = PyInt 0"
  "total_deposits big_account = PyInt huge"
  using huge_pos
  by (simp_all add: big_account_def int_account_def deposit_def withdraw_def Let_def
      py_le_def py_lt_def py_eq_def py_gt_def)

lemma reachable_big_account: "reachable big_account"
proof -
  have 0: "reachable int_account"
    by (rule reachable_init [OF _ construct_int_account]) simp
  have 1: "reachable (snd (deposit ''t1'' int_account (Num (PyInt huge))))"
    by (rule reachable_step [OF 0 positive_test_prices,
          where x = "Deposit (Num (PyInt huge))" and now = "''t1''"])
      (simp_all add: prod_eq_iff)
  show ?thesis unfolding big_account_def
    by (rule reachable_step [OF 1 positive_test_prices,
          where x = "Withdraw (Num (PyInt huge))" and now = "''t2''"])
      (simp_all add: prod_eq_iff)
qed

text \<open>
  C1. The calls are all-or-nothing except in one case. On the reachable account whose
  cash is the int 0 and whose \<^verbatim>\<open>_total_deposits\<close> is the int \<^verbatim>\<open>2**1024\<close>, \<^verbatim>\<open>deposit(1.5)\<close>
  assigns \<^verbatim>\<open>_cash_balance = 1.5\<close>, then raises \<^verbatim>\<open>OverflowError\<close> at
  \<^verbatim>\<open>self._total_deposits += amount\<close>: the call fails, no transaction is recorded, and the
  cash balance has changed.
\<close>

theorem deposit_overflow_partial_update:
  "reachable big_account \<and>
   cash_balance big_account = PyInt 0 \<and>
   deposit ''t3'' big_account (Num (PyFloat (Fin (3 / 2)))) =
     (Some OverflowError, big_account\<lparr>cash_balance := PyFloat (Fin (3 / 2))\<rparr>) \<and>
   snd (deposit ''t3'' big_account (Num (PyFloat (Fin (3 / 2))))) \<noteq> big_account"
proof -
  have d: "deposit ''t3'' big_account (Num (PyFloat (Fin (3 / 2)))) =
     (Some OverflowError, big_account\<lparr>cash_balance := PyFloat (Fin (3 / 2))\<rparr>)"
    by (simp add: deposit_def Let_def big_account_eq py_le_def py_lt_def py_eq_def
        to_float_0 to_float_huge round64_3_2)
  have "cash_balance (big_account\<lparr>cash_balance := PyFloat (Fin (3 / 2))\<rparr>) \<noteq> cash_balance big_account"
    by (simp add: big_account_eq)
  then have "big_account\<lparr>cash_balance := PyFloat (Fin (3 / 2))\<rparr> \<noteq> big_account" by metis
  with d show ?thesis by (simp add: reachable_big_account big_account_eq)
qed

section \<open>The portfolio value\<close>

lemma fadd_zero: "valid_f64 x \<Longrightarrow> fadd x (Fin 0) = x"
  by (cases x) (simp_all add: valid_f64_def)

lemma get_share_price_error:
  "get_share_price prices symbol = Inl e \<Longrightarrow> \<exists>m. e = UnknownSymbolError m"
  by (auto simp: get_share_price_def Let_def split: option.splits)

lemma portfolio_loop_sum_values:
  "valid_f64 x \<Longrightarrow> portfolio_loop prices (PyFloat x) hs = sum_values prices (PyFloat x) hs"
proof (induction hs arbitrary: x)
  case Nil
  then show ?case by simp
next
  case (Cons h hs)
  obtain symbol quantity where h: "h = (symbol, quantity)" by (cases h)
  show ?case
  proof (cases "get_share_price prices symbol")
    case (Inl e)
    from get_share_price_error [OF Inl] obtain m where "e = UnknownSymbolError m" ..
    with Inl h Cons show ?thesis by (simp add: fadd_zero)
  next
    case (Inr price)
    show ?thesis
    proof (cases "to_float quantity")
      case (Inl e)
      with Inr h show ?thesis by simp
    next
      case y: (Inr y)
      have "valid_f64 (fadd x (fmul price y))" by (rule fadd_valid)
      from Cons.IH [OF this] Inr y h show ?thesis by simp
    qed
  qed
qed

lemma portfolio_loop_error:
  "portfolio_loop prices acc hs = Inl e \<Longrightarrow> e = OverflowError"
proof (induction hs arbitrary: acc)
  case Nil
  then show ?case by simp
next
  case (Cons h hs)
  obtain symbol quantity where h: "h = (symbol, quantity)" by (cases h)
  show ?case
  proof (cases "get_share_price prices symbol")
    case (Inl e')
    from get_share_price_error [OF Inl] obtain m where "e' = UnknownSymbolError m" ..
    with Inl h Cons show ?thesis by simp
  next
    case (Inr price)
    with h Cons show ?thesis
      by (auto simp del: py_mul.simps split: sum.splits dest: py_mul_error py_add_error)
  qed
qed

lemma portfolio_loop_returns:
  assumes "\<forall>(k, q) \<in> set hs. \<exists>y. to_float q = Inr y"
  shows "\<exists>v. portfolio_loop prices (PyFloat x) hs = Inr (PyFloat v)"
  using assms
proof (induction hs arbitrary: x)
  case Nil
  then show ?case by simp
next
  case (Cons h hs)
  obtain symbol quantity where h: "h = (symbol, quantity)" by (cases h)
  with Cons.prems obtain y where y: "to_float quantity = Inr y" by auto
  from Cons.prems have rest: "\<forall>(k, q) \<in> set hs. \<exists>y. to_float q = Inr y" by simp
  show ?case
  proof (cases "get_share_price prices symbol")
    case (Inl e)
    from get_share_price_error [OF Inl] obtain m where "e = UnknownSymbolError m" ..
    with Inl h Cons.IH [OF rest] show ?thesis by simp
  next
    case (Inr price)
    with h y Cons.IH [OF rest] show ?thesis by simp
  qed
qed


lemma unknown_holding:
  "get_share_price test_prices ''FAKE'' = Inl (UnknownSymbolError ''No price data found for symbol: FAKE'')"
  by code_simp


section \<open>Buying and selling back\<close>

lemma dict_set_dict_set: "dict_set (dict_set d k v) k w = dict_set d k w"
  by (induction d k v rule: dict_set.induct) auto

lemma dict_set_same: "map_of d k = Some v \<Longrightarrow> distinct (map fst d) \<Longrightarrow> dict_set d k v = d"
  by (induction d k v rule: dict_set.induct) (auto split: if_splits)

lemma dict_del_absent: "map_of d k = None \<Longrightarrow> dict_del d k = d"
  by (induction d) (auto simp: dict_del_def split: if_splits)

lemma dict_del_dict_set_absent: "map_of d k = None \<Longrightarrow> dict_del (dict_set d k v) k = d"
proof (induction d k v rule: dict_set.induct)
  case (1 k v)
  then show ?case by (simp add: dict_del_def)
next
  case (2 k' v' d k v)
  then show ?case by (auto simp: dict_del_def split: if_splits)
qed

lemma buy_shares_cases:
  assumes "buy_shares prices now s symbol quantity = (r, s')"
  obtains (failed) "s' = s" "r \<noteq> None"
  | (bought) q price total_cost c where "r = None" "positive_int quantity = Some q"
      "get_share_price prices symbol = Inr price"
      "py_mul (PyFloat price) (PyInt q) = Inr total_cost"
      "\<not> py_gt total_cost (cash_balance s)"
      "py_sub (cash_balance s) total_cost = Inr c"
      "s' = record_transaction now ''BUY'' (Some symbol) (Some q) (Some price) total_cost
              (s\<lparr>cash_balance := c,
                 holdings := dict_set (holdings s) (upper symbol)
                               (dict_get (holdings s) (upper symbol) 0 + q)\<rparr>)"
proof (cases "positive_int quantity")
  case None
  with assms show ?thesis by (intro failed) (auto simp: buy_shares_def)
next
  case (Some q)
  show ?thesis
  proof (cases "get_share_price prices symbol")
    case (Inl e)
    with Some assms show ?thesis by (intro failed) (auto simp: buy_shares_def)
  next
    case price: (Inr price)
    show ?thesis
    proof (cases "py_mul (PyFloat price) (PyInt q)")
      case (Inl e)
      with Some price assms show ?thesis
        by (intro failed) (auto simp: buy_shares_def simp del: py_mul.simps)
    next
      case cost: (Inr total_cost)
      show ?thesis
      proof (cases "py_gt total_cost (cash_balance s)")
        case True
        with Some price cost assms show ?thesis
          by (intro failed) (auto simp: buy_shares_def simp del: py_mul.simps)
      next
        case False
        show ?thesis
        proof (cases "py_sub (cash_balance s) total_cost")
          case (Inl e)
          with Some price cost False assms show ?thesis
            by (intro failed) (auto simp: buy_shares_def simp del: py_mul.simps)
        next
          case (Inr c)
          with Some price cost False assms show ?thesis
            by (intro bought [of q price total_cost c])
              (auto simp: buy_shares_def Let_def simp del: py_mul.simps)
        qed
      qed
    qed
  qed
qed


lemma portfolio_loop_float:
  "portfolio_loop prices (PyFloat x) hs = Inr r \<Longrightarrow> \<exists>v. r = PyFloat v"
proof (induction hs arbitrary: x)
  case Nil
  then show ?case by auto
next
  case (Cons h hs)
  obtain symbol quantity where h: "h = (symbol, quantity)" by (cases h)
  show ?case
  proof (cases "get_share_price prices symbol")
    case (Inl e)
    from get_share_price_error [OF Inl] obtain m where "e = UnknownSymbolError m" ..
    with Inl h Cons show ?thesis by simp
  next
    case (Inr price)
    with h Cons.prems Cons.IH show ?thesis by (auto split: sum.splits)
  qed
qed

lemma sell_back_returns:
  assumes inv: "\<forall>(k, q) \<in> set (holdings s). upper k = k \<and> 0 < q"
    and buy: "buy_shares prices now s symbol quantity = (None, s1)"
  shows "fst (sell_shares prices now' s1 symbol quantity) = None"
  using buy
proof (cases rule: buy_shares_cases)
  case (bought q price total_cost c)
  from bought(4) obtain y where y: "to_float q = Inr y" and tc: "total_cost = PyFloat (fmul price y)"
    by (auto split: sum.splits)
  from bought(6) tc obtain x where c: "c = PyFloat x"
    by (cases "cash_balance s") (auto split: sum.splits)
  have "0 \<le> dict_get (holdings s) (upper symbol) 0" using inv by (rule dict_get_nonneg)
  then show ?thesis
    unfolding bought(7)
    by (simp add: sell_shares_def Let_def bought(2,3) y c map_of_dict_set)
qed simp

lemma round_trip_holdings:
  assumes inv: "distinct (map fst (holdings s)) \<and> (\<forall>(k, q) \<in> set (holdings s). upper k = k \<and> 0 < q)"
    and buy: "buy_shares prices now s symbol quantity = (None, s1)"
    and sell: "sell_shares prices' now' s1 symbol quantity = (None, s2)"
  shows "holdings s2 = holdings s \<and> total_deposits s2 = total_deposits s"
  using buy
proof (cases rule: buy_shares_cases)
  case (bought q price total_cost c)
  define K where "K = upper symbol"
  define old where "old = dict_get (holdings s) K 0"
  have h1: "holdings s1 = dict_set (holdings s) K (old + q)" and t1: "total_deposits s1 = total_deposits s"
    unfolding bought(7) by (simp_all add: K_def old_def)
  from sell show ?thesis
  proof (cases rule: sell_shares_cases)
    case (sold q' v price' total_value c')
    from sold(2) bought(2) have q': "q' = q" by simp
    from sold(3) have v: "v = old + q" by (simp add: h1 K_def [symmetric] map_of_dict_set)
    have h2: "holdings s2 = (if old = 0 then dict_del (dict_set (holdings s) K 0) K
                             else dict_set (holdings s) K old)"
      unfolding sold(8) by (simp add: h1 K_def [symmetric] q' v dict_set_dict_set)
    have t2: "total_deposits s2 = total_deposits s" unfolding sold(8) by (simp add: t1)
    show ?thesis
    proof (cases "map_of (holdings s) K")
      case None
      then have "old = 0" by (simp add: old_def dict_get_def)
      with None h2 t2 show ?thesis by (simp add: dict_del_dict_set_absent)
    next
      case (Some w)
      then have "(K, w) \<in> set (holdings s)" by (rule map_of_SomeD)
      with inv have "0 < w" by auto
      moreover from Some have "old = w" by (simp add: old_def dict_get_def)
      ultimately show ?thesis using Some h2 t2 inv by (simp add: dict_set_same)
    qed
  qed simp
qed simp

lemma round_trip_cash:
  assumes buy: "buy_shares prices now s symbol quantity = (None, s1)"
    and sell: "sell_shares prices now' s1 symbol quantity = (None, s2)"
    and exact: "exact_purchase s s1"
  shows "\<exists>c. as_f64 (cash_balance s) = Fin c \<and> round64 c = Fin c \<and> cash_balance s2 = PyFloat (Fin c)"
  using buy
proof (cases rule: buy_shares_cases)
  case (bought q price total_cost c1)
  have l: "tx_total_amount (last (transactions s1)) = total_cost" and c1: "cash_balance s1 = c1"
    unfolding bought(7) by (simp_all add: record_transaction_def)
  from exact obtain c t where e: "as_f64 (cash_balance s) = Fin c" "total_cost = PyFloat (Fin t)"
    "c1 = PyFloat (Fin (c - t))" "round64 c = Fin c"
    unfolding exact_purchase_def l c1
    by (auto split: f64.splits pynum.splits)
  from sell show ?thesis
  proof (cases rule: sell_shares_cases)
    case (sold q' v price' total_value c2)
    from sold(2,5) bought(2,3) have "q' = q" "price' = price" by simp_all
    with sold(6) bought(4) have "total_value = total_cost" by simp
    with sold(7) have "c2 = PyFloat (Fin c)" by (simp add: c1 e)
    then have "cash_balance s2 = PyFloat (Fin c)" unfolding sold(8) by simp
    with e show ?thesis by simp
  qed simp
qed simp

lemma py_add_same_value:
  assumes "as_f64 a = Fin c" "round64 c = Fin c"
  shows "py_add a (PyFloat y) = py_add (PyFloat (Fin c)) (PyFloat y)"
  using assms by (cases a) (auto simp: to_float_def)

text \<open>
  C4, amended: for a reachable state and a purchase that returns, selling the same
  quantity of the same symbol at the same prices returns too and restores \<open>holdings\<close> and
  \<^verbatim>\<open>_total_deposits\<close>; when the purchase is exact (no rounding in \<^verbatim>\<open>cash - cost\<close>) it also
  restores the cash balance, the total value and the profit or loss.
\<close>

theorem round_trip_restores:
  assumes "reachable s" and "buy_shares prices now s symbol quantity = (None, s1)"
  shows "fst (sell_shares prices now' s1 symbol quantity) = None \<and>
         holdings (snd (sell_shares prices now' s1 symbol quantity)) = holdings s \<and>
         total_deposits (snd (sell_shares prices now' s1 symbol quantity)) = total_deposits s \<and>
         (exact_purchase s s1 \<longrightarrow>
            py_eq (cash_balance (snd (sell_shares prices now' s1 symbol quantity))) (cash_balance s) \<and>
            get_total_value prices (snd (sell_shares prices now' s1 symbol quantity)) =
              get_total_value prices s \<and>
            get_profit_loss prices (snd (sell_shares prices now' s1 symbol quantity)) =
              get_profit_loss prices s)"
proof -
  define s2 where "s2 = snd (sell_shares prices now' s1 symbol quantity)"
  from reachable_holdings [OF assms(1)]
  have inv: "distinct (map fst (holdings s)) \<and> (\<forall>(k, q) \<in> set (holdings s). upper k = k \<and> 0 < q)" .
  then have "fst (sell_shares prices now' s1 symbol quantity) = None"
    using assms(2) by (intro sell_back_returns) simp_all
  then have sell: "sell_shares prices now' s1 symbol quantity = (None, s2)"
    by (simp add: s2_def prod_eq_iff)
  from round_trip_holdings [OF inv assms(2) sell]
  have h: "holdings s2 = holdings s" and t: "total_deposits s2 = total_deposits s" by simp_all
  have pv: "get_portfolio_value prices s2 = get_portfolio_value prices s"
    by (simp add: get_portfolio_value_def h)
  have "py_eq (cash_balance s2) (cash_balance s) \<and>
        get_total_value prices s2 = get_total_value prices s \<and>
        get_profit_loss prices s2 = get_profit_loss prices s" if "exact_purchase s s1"
  proof -
    from round_trip_cash [OF assms(2) sell that] obtain c where
      c: "as_f64 (cash_balance s) = Fin c" "round64 c = Fin c" "cash_balance s2 = PyFloat (Fin c)"
      by blast
    have eq: "py_eq (cash_balance s2) (cash_balance s)" by (simp add: py_eq_def c)
    have tv: "get_total_value prices s2 = get_total_value prices s"
    proof (cases "get_portfolio_value prices s")
      case (Inl e)
      with pv show ?thesis by (simp add: get_total_value_def)
    next
      case (Inr r)
      then obtain v where "r = PyFloat v"
        unfolding get_portfolio_value_def by (auto dest: portfolio_loop_float)
      with Inr pv py_add_same_value [OF c(1,2), of v] show ?thesis
        by (simp add: get_total_value_def get_cash_balance_def c(3))
    qed
    with eq show ?thesis by (simp add: get_profit_loss_def t cong: sum.case_cong)
  qed
  with sell h t show ?thesis unfolding s2_def [symmetric] by simp
qed


lemma last_transaction_aapl10:
  "tx_total_amount (last (transactions aapl10_account)) = PyFloat (Fin 1500)"
  by (simp add: aapl10_account_def buy_shares_def test_account_def Let_def price_AAPL
      upper_AAPL to_float_def py_gt_def fsub_def dict_get_def record_transaction_def)

theorem round_trip_restores_witness:
  "reachable test_account \<and>
   buy_shares test_prices ''t1'' test_account ''AAPL'' (Num (PyInt 10)) = (None, aapl10_account) \<and>
   exact_purchase test_account aapl10_account \<and>
   fst (sell_shares test_prices ''t2'' aapl10_account ''AAPL'' (Num (PyInt 10))) = None \<and>
   holdings (snd (sell_shares test_prices ''t2'' aapl10_account ''AAPL'' (Num (PyInt 10)))) = [] \<and>
   py_eq (cash_balance (snd (sell_shares test_prices ''t2'' aapl10_account ''AAPL'' (Num (PyInt 10)))))
     (PyFloat (Fin 10000)) \<and>
   get_total_value test_prices (snd (sell_shares test_prices ''t2'' aapl10_account ''AAPL'' (Num (PyInt 10)))) =
     get_total_value test_prices test_account \<and>
   get_profit_loss test_prices (snd (sell_shares test_prices ''t2'' aapl10_account ''AAPL'' (Num (PyInt 10)))) =
     get_profit_loss test_prices test_account"
proof -
  have e: "exact_purchase test_account aapl10_account"
    by (simp add: exact_purchase_def last_transaction_aapl10 aapl10_account_eq)
      (simp add: test_account_def)
  from round_trip_restores [OF reachable_test_account aapl10_account_eq(1), of "''t2''"] e
  show ?thesis
    by (simp add: reachable_test_account aapl10_account_eq(1)) (simp add: test_account_def)
qed

lemma upper_TSLA: "upper ''TSLA'' = ''TSLA''"
  by code_simp

lemma price_TSLA: "get_share_price test_prices ''TSLA'' = Inr (Fin (1401 / 2))"
  by code_simp

lemma round64_rich: "round64 9007199254742994 = Fin 9007199254742994"
proof -
  have "round_mag (of_int 4503599627371497 * pow2 1) = Some (of_int 4503599627371497 * pow2 1)"
    by (rule round_mag_exact) (simp_all add: pow2_def)
  then show ?thesis by (simp add: round64_def pow2_def)
qed

lemma round64_rich_minus_cost: "round64 9007199254741593 = Fin 9007199254741592"
proof -
  have "round_mag 9007199254741593 = Some 9007199254741592"
    by (subst round_mag_eval [where k = 53]) (simp_all add: pow2_def round_half_even_def Let_def)
  then show ?thesis by (simp add: round64_def)
qed

lemma round64_rich_plus_proceeds: "round64 9007199254742993 = Fin 9007199254742992"
proof -
  have "round_mag 9007199254742993 = Some 9007199254742992"
    by (subst round_mag_eval [where k = 53]) (simp_all add: pow2_def round_half_even_def Let_def)
  then show ?thesis by (simp add: round64_def)
qed

lemma construct_rich_account:
  "construct ''t0'' ''acc123'' ''Test User'' (Num (PyFloat (Fin 9007199254742994))) = Inr rich_account"
  by (simp add: construct_def rich_account_def py_lt_def py_gt_def record_transaction_def)

lemma reachable_rich_account: "reachable rich_account"
  by (rule reachable_init [OF _ construct_rich_account]) (simp add: valid_f64_def round64_rich)

lemma rich_bought_eq:
  "fst (buy_shares test_prices ''t1'' rich_account ''TSLA'' (Num (PyInt 2))) = None"
  "cash_balance rich_bought = PyFloat (Fin 9007199254741592)"
  "holdings rich_bought = [(''TSLA'', 2)]"
  by (simp_all add: rich_bought_def buy_shares_def rich_account_def Let_def price_TSLA
      upper_TSLA to_float_def py_gt_def fsub_def dict_get_def round64_rich_minus_cost)

lemma rich_sold_eq:
  "fst (sell_shares test_prices ''t2'' rich_bought ''TSLA'' (Num (PyInt 2))) = None"
  "cash_balance rich_sold = PyFloat (Fin 9007199254742992)"
  by (simp_all add: rich_sold_def sell_shares_def Let_def rich_bought_eq price_TSLA
      upper_TSLA to_float_def dict_get_def round64_rich_plus_proceeds)

text \<open>
  C4, as stated: buying and at once selling the same quantity at an unchanged price
  restores the cash balance exactly. With a cash balance of \<^verbatim>\<open>2**53 + 2002\<close>, buying and
  selling 2 TSLA at 700.50 rounds twice to even and leaves \<^verbatim>\<open>2**53 + 2000\<close>.
\<close>

theorem round_trip_loses_cash:
  "reachable rich_account \<and>
   fst (buy_shares test_prices ''t1'' rich_account ''TSLA'' (Num (PyInt 2))) = None \<and>
   fst (sell_shares test_prices ''t2'' rich_bought ''TSLA'' (Num (PyInt 2))) = None \<and>
   cash_balance rich_account = PyFloat (Fin 9007199254742994) \<and>
   cash_balance rich_sold = PyFloat (Fin 9007199254742992) \<and>
   \<not> py_eq (cash_balance rich_sold) (cash_balance rich_account)"
  by (simp add: reachable_rich_account rich_bought_eq rich_sold_eq py_eq_def)
    (simp add: rich_account_def)

section \<open>Replaying the log\<close>

lemma replay_snoc:
  "replay ct (txs @ [tx]) = (case replay ct txs of Inl e \<Rightarrow> Inl e | Inr ct' \<Rightarrow> replay_tx ct' tx)"
  by (induction txs arbitrary: ct) (auto split: sum.splits)

lemma deposit_returns:
  assumes "deposit now s amount = (None, s')"
  obtains a c t where "num_of amount = Some a" "py_add (cash_balance s) a = Inr c"
    "py_add (total_deposits s) a = Inr t"
    "s' = record_transaction now ''DEPOSIT'' None None None a
            (s\<lparr>cash_balance := c, total_deposits := t\<rparr>)"
proof (cases "num_of amount")
  case None
  with assms show ?thesis by (simp add: deposit_def)
next
  case (Some a)
  show ?thesis
  proof (cases "py_le a (PyInt 0)")
    case True
    with Some assms show ?thesis by (simp add: deposit_def)
  next
    case False
    show ?thesis
    proof (cases "py_add (cash_balance s) a")
      case (Inl e)
      with Some False assms show ?thesis by (simp add: deposit_def)
    next
      case c: (Inr c)
      show ?thesis
      proof (cases "py_add (total_deposits s) a")
        case (Inl e)
        with Some False c assms show ?thesis by (simp add: deposit_def)
      next
        case (Inr t)
        with Some False c assms show ?thesis
          by (intro that [of a c t]) (simp_all add: deposit_def)
      qed
    qed
  qed
qed

lemma withdraw_returns:
  assumes "withdraw now s amount = (None, s')"
  obtains a c where "num_of amount = Some a" "py_sub (cash_balance s) a = Inr c"
    "s' = record_transaction now ''WITHDRAW'' None None None a (s\<lparr>cash_balance := c\<rparr>)"
proof (cases "num_of amount")
  case None
  with assms show ?thesis by (simp add: withdraw_def)
next
  case (Some a)
  show ?thesis
  proof (cases "py_le a (PyInt 0) \<or> py_gt a (cash_balance s)")
    case True
    with Some assms show ?thesis by (auto simp: withdraw_def split: if_splits)
  next
    case False
    show ?thesis
    proof (cases "py_sub (cash_balance s) a")
      case (Inl e)
      with Some False assms show ?thesis by (simp add: withdraw_def)
    next
      case (Inr c)
      with Some False assms show ?thesis
        by (intro that [of a c]) (simp_all add: withdraw_def)
    qed
  qed
qed

lemma deposit_replay:
  assumes "deposit now s amount = (None, s')"
  shows "transactions s' = transactions s @ [last (transactions s')] \<and>
         replay_tx (cash_balance s, total_deposits s) (last (transactions s')) =
           Inr (cash_balance s', total_deposits s')"
  using assms
proof (cases rule: deposit_returns)
  case (1 a c t)
  then show ?thesis by (simp add: record_transaction_def)
qed

lemma withdraw_replay:
  assumes "withdraw now s amount = (None, s')"
  shows "transactions s' = transactions s @ [last (transactions s')] \<and>
         replay_tx (cash_balance s, total_deposits s) (last (transactions s')) =
           Inr (cash_balance s', total_deposits s')"
  using assms
proof (cases rule: withdraw_returns)
  case (1 a c)
  then show ?thesis by (simp add: record_transaction_def)
qed

lemma buy_replay:
  assumes "buy_shares prices now s symbol quantity = (None, s')"
  shows "transactions s' = transactions s @ [last (transactions s')] \<and>
         replay_tx (cash_balance s, total_deposits s) (last (transactions s')) =
           Inr (cash_balance s', total_deposits s')"
  using assms
proof (cases rule: buy_shares_cases)
  case (bought q price total_cost c)
  then show ?thesis by (simp add: record_transaction_def)
qed simp

lemma sell_replay:
  assumes "sell_shares prices now s symbol quantity = (None, s')"
  shows "transactions s' = transactions s @ [last (transactions s')] \<and>
         replay_tx (cash_balance s, total_deposits s) (last (transactions s')) =
           Inr (cash_balance s', total_deposits s')"
  using assms
proof (cases rule: sell_shares_cases)
  case (sold q v price total_value c)
  then show ?thesis by (simp add: record_transaction_def)
qed simp

lemma step_replay:
  assumes "step prices now s x = (None, s')"
  shows "transactions s' = transactions s @ [last (transactions s')] \<and>
         replay_tx (cash_balance s, total_deposits s) (last (transactions s')) =
           Inr (cash_balance s', total_deposits s')"
proof (cases x)
  case (Deposit amount)
  with assms have "deposit now s amount = (None, s')" by simp
  then show ?thesis by (rule deposit_replay)
next
  case (Withdraw amount)
  with assms have "withdraw now s amount = (None, s')" by simp
  then show ?thesis by (rule withdraw_replay)
next
  case (Buy symbol quantity)
  with assms have "buy_shares prices now s symbol quantity = (None, s')" by simp
  then show ?thesis by (rule buy_replay)
next
  case (Sell symbol quantity)
  with assms have "sell_shares prices now s symbol quantity = (None, s')" by simp
  then show ?thesis by (rule sell_replay)
qed

lemma completed_replay:
  "completed d s \<Longrightarrow>
     replay (d, d) (later_log d (transactions s)) = Inr (cash_balance s, total_deposits s) \<and>
     (py_gt d (PyInt 0) \<longrightarrow> transactions s \<noteq> [])"
proof (induction rule: completed.induct)
  case (completed_init now aid uname d s)
  then show ?case
    by (auto simp: construct_def Let_def later_log_def record_transaction_def split: if_splits)
next
  case (completed_step d s prices now x s')
  define tx where "tx = last (transactions s')"
  from step_replay [OF completed_step.hyps(2)] have
    tx: "transactions s' = transactions s @ [tx]"
      "replay_tx (cash_balance s, total_deposits s) tx = Inr (cash_balance s', total_deposits s')"
    by (simp_all add: tx_def)
  from completed_step.IH have ne: "py_gt d (PyInt 0) \<longrightarrow> transactions s \<noteq> []" by simp
  then have "later_log d (transactions s') = later_log d (transactions s) @ [tx]"
    by (simp add: later_log_def tx(1))
  with completed_step.IH tx show ?case by (simp add: replay_snoc)
qed

text \<open>
  C10, amended: in every state reached from \<^verbatim>\<open>Account(.., initial_deposit=d)\<close> by calls that
  returned, the two balances are determined by \<open>d\<close> and the log: replaying the records
  after the initial one in order from \<open>(d, d)\<close> (a DEPOSIT adds its amount to both, a
  WITHDRAW or BUY subtracts it from the cash, a SELL adds it to the cash) gives
  \<open>(cash_balance, total_deposits)\<close>.
\<close>

theorem balances_replay_log:
  "completed d s \<Longrightarrow>
     replay (d, d) (later_log d (transactions s)) = Inr (cash_balance s, total_deposits s)"
  using completed_replay by blast

lemma completed_aapl10: "completed (PyFloat (Fin 10000)) aapl10_account"
  by (rule completed_step [OF completed_init [OF construct_test_account],
        where x = "Buy ''AAPL'' (Num (PyInt 10))" and prices = test_prices and now = "''t1''"])
    (simp add: aapl10_account_eq)

theorem balances_replay_log_witness:
  "completed (PyFloat (Fin 10000)) aapl10_account \<and>
   replay (PyFloat (Fin 10000), PyFloat (Fin 10000))
     (later_log (PyFloat (Fin 10000)) (transactions aapl10_account)) =
     Inr (PyFloat (Fin 8500), PyFloat (Fin 10000))"
  using balances_replay_log [OF completed_aapl10] completed_aapl10
  by (simp add: aapl10_account_eq)

lemma round64_pow53_plus_1: "round64 9007199254740993 = Fin 9007199254740992"
proof -
  have "round_mag 9007199254740993 = Some 9007199254740992"
    by (subst round_mag_eval [where k = 53]) (simp_all add: pow2_def round_half_even_def Let_def)
  then show ?thesis by (simp add: round64_def)
qed

lemma construct_pow53_account:
  "construct ''t0'' ''acc123'' ''Test User'' (Num (PyFloat (Fin 9007199254740992))) = Inr pow53_account"
  by (simp add: construct_def pow53_account_def py_lt_def py_gt_def record_transaction_def)

lemma log_account_eq:
  "fst (deposit ''t1'' pow53_account (Num (PyFloat (Fin 1)))) = None"
  "fst (withdraw ''t2'' (snd (deposit ''t1'' pow53_account (Num (PyFloat (Fin 1)))))
          (Num (PyFloat (Fin 9007199254740992)))) = None"
  "deposit ''t3''
       (snd (withdraw ''t2''
          (snd (deposit ''t1'' pow53_account (Num (PyFloat (Fin 1)))))
          (Num (PyFloat (Fin 9007199254740992)))))
       (Num (PyFloat (Fin 1))) = (None, log_account)"
  "cash_balance log_account = PyFloat (Fin 1)"
  "total_deposits log_account = PyFloat (Fin 9007199254740992)"
  "map (\<lambda>t. (tx_type t, tx_total_amount t)) (transactions log_account) =
     [(''DEPOSIT'', PyFloat (Fin 9007199254740992)), (''DEPOSIT'', PyFloat (Fin 1)),
      (''WITHDRAW'', PyFloat (Fin 9007199254740992)), (''DEPOSIT'', PyFloat (Fin 1))]"
  by (simp_all add: log_account_def pow53_account_def deposit_def withdraw_def Let_def
      py_le_def py_lt_def py_eq_def py_gt_def fsub_def record_transaction_def
      round64_pow53_plus_1)


lemma completed_log_account: "completed (PyFloat (Fin 9007199254740992)) log_account"
proof -
  let ?d = "PyFloat (Fin 9007199254740992)"
  let ?s1 = "snd (deposit ''t1'' pow53_account (Num (PyFloat (Fin 1))))"
  let ?s2 = "snd (withdraw ''t2'' ?s1 (Num (PyFloat (Fin 9007199254740992))))"
  have 0: "completed ?d pow53_account"
    by (rule completed_init [OF construct_pow53_account])
  have 1: "completed ?d ?s1"
    by (rule completed_step [OF 0, where x = "Deposit (Num (PyFloat (Fin 1)))"
          and prices = test_prices and now = "''t1''"])
      (simp add: prod_eq_iff log_account_eq(1))
  have 2: "completed ?d ?s2"
    by (rule completed_step [OF 1, where x = "Withdraw (Num (PyFloat (Fin 9007199254740992)))"
          and prices = test_prices and now = "''t2''"])
      (simp add: prod_eq_iff log_account_eq(2))
  show ?thesis
    by (rule completed_step [OF 2, where x = "Deposit (Num (PyFloat (Fin 1)))"
          and prices = test_prices and now = "''t3''"])
      (simp add: log_account_eq(3))
qed

lemma amounts_pairs:
  "amounts kind txs =
     map snd (filter (\<lambda>p. fst p = kind) (map (\<lambda>t. (tx_type t, tx_total_amount t)) txs))"
  by (induction txs) (simp_all add: amounts_def)

lemma log_account_amounts:
  "amounts ''DEPOSIT'' (transactions log_account) =
     [PyFloat (Fin 9007199254740992), PyFloat (Fin 1), PyFloat (Fin 1)]"
  "amounts ''WITHDRAW'' (transactions log_account) = [PyFloat (Fin 9007199254740992)]"
  "amounts ''BUY'' (transactions log_account) = []"
  "amounts ''SELL'' (transactions log_account) = []"
  by (simp_all add: amounts_pairs log_account_eq(6))

lemma log_account_formula:
  "balance_from_log (transactions log_account) = Inr (PyFloat (Fin 0))"
  by (simp add: balance_from_log_def log_account_amounts py_sum_def to_float_def fsub_def
      round64_pow53_plus_1)

text \<open>
  C10, as stated: the balances equal the sums over the log. After
  \<^verbatim>\<open>Account(.., 2.0**53)\<close>, \<^verbatim>\<open>deposit(1.0)\<close>, \<^verbatim>\<open>withdraw(2.0**53)\<close>, \<^verbatim>\<open>deposit(1.0)\<close> the cash
  balance is 1.0 and \<^verbatim>\<open>_total_deposits\<close> is \<^verbatim>\<open>2.0**53\<close>; the formula over the log gives a
  cash balance of 0.0 with float sums and of 2 with exact sums, and the exact sum of the
  deposits is \<^verbatim>\<open>2**53 + 2\<close>.
\<close>

theorem balances_not_sums_of_log:
  "completed (PyFloat (Fin 9007199254740992)) log_account \<and>
   cash_balance log_account = PyFloat (Fin 1) \<and>
   total_deposits log_account = PyFloat (Fin 9007199254740992) \<and>
   balance_from_log (transactions log_account) = Inr (PyFloat (Fin 0)) \<and>
   \<not> py_eq (cash_balance log_account) (PyFloat (Fin 0)) \<and>
   exact_total ''DEPOSIT'' (transactions log_account) = 9007199254740994 \<and>
   rat_value (total_deposits log_account) \<noteq> exact_total ''DEPOSIT'' (transactions log_account) \<and>
   exact_balance (transactions log_account) = 2 \<and>
   rat_value (cash_balance log_account) \<noteq> exact_balance (transactions log_account)"
  by (simp add: completed_log_account log_account_eq(4,5) log_account_formula py_eq_def
      exact_total_def exact_balance_def log_account_amounts)

end
